theory Spec2Isabelle
  imports Main "HOL-Library.Word"
begin

unbundle bit_operations_syntax

section \<open>Machine types and status codes\<close>

text \<open>
  The stack is C for a 32-bit little-endian microcontroller. Fixed-width unsigned
  integers are words; \<open>uint8_t\<close> operands of arithmetic are promoted to \<open>int\<close> in C, so
  sums of two bytes are computed on \<open>nat\<close> (via \<open>unat\<close>) and cannot wrap.
\<close>

type_synonym u8 = "8 word"
type_synonym u16 = "16 word"
type_synonym u32 = "32 word"
type_synonym u64 = "64 word"

text \<open>\<open>ble_status_t\<close> of \<open>ble_defs.h\<close>.\<close>

datatype ble_status =
    BLE_STATUS_OK
  | BLE_STATUS_ERROR
  | BLE_STATUS_TIMEOUT
  | BLE_STATUS_NO_MEMORY
  | BLE_STATUS_INVALID_PARAMS
  | BLE_STATUS_NOT_CONNECTED
  | BLE_STATUS_ALREADY_CONNECTED
  | BLE_STATUS_BUSY
  | BLE_STATUS_UNKNOWN_DEVICE
  | BLE_STATUS_PROTOCOL_ERROR

text \<open>\<open>ble_conn_state_t\<close> of \<open>ble_defs.h\<close>.\<close>

datatype ble_conn_state =
    CONN_STATE_IDLE
  | CONN_STATE_SCANNING
  | CONN_STATE_INITIATING
  | CONN_STATE_CONNECTION
  | CONN_STATE_CONNECTED
  | CONN_STATE_DISCONNECTING

text \<open>
  What C leaves undefined is a value of the model: a division by zero, a read or a write
  past the end of an array. A function that can reach one of them returns
  \<open>ll_fault + result\<close>.
\<close>

datatype ll_fault =
    DivisionByZero
  | TxBufferOverflow nat
  | TxBufferOverread nat
  | SourceOverread
  | CopyLengthInvalid

section \<open>CRC-24 (\<open>ble_ll_missing.c\<close>)\<close>

text \<open>The 256-entry table \<open>crc24_table\<close>, copied entry by entry.\<close>

definition crc24_table :: "u32 list" where
  "crc24_table = [
     0x000000, 0x01B4C0, 0x036980, 0x02DD40, 0x06D300, 0x0767C0, 0x05BA80, 0x040E40,
     0x0DA600, 0x0C12C0, 0x0ECF80, 0x0F7B40, 0x0B7500, 0x0AC1C0, 0x081C80, 0x09A840,
     0x1B4C00, 0x1AF8C0, 0x182580, 0x199140, 0x1D9F00, 0x1C2BC0, 0x1EF680, 0x1F4240,
     0x16EA00, 0x175EC0, 0x158380, 0x143740, 0x103900, 0x118DC0, 0x135080, 0x12E440,
     0x369800, 0x372CC0, 0x35F180, 0x344540, 0x304B00, 0x31FFC0, 0x332280, 0x329640,
     0x3B3E00, 0x3A8AC0, 0x385780, 0x39E340, 0x3DED00, 0x3C59C0, 0x3E8480, 0x3F3040,
     0x2DD400, 0x2C60C0, 0x2EBD80, 0x2F0940, 0x2B0700, 0x2AB3C0, 0x286E80, 0x29DA40,
     0x207200, 0x21C6C0, 0x231B80, 0x22AF40, 0x26A100, 0x2715C0, 0x25C880, 0x247C40,
     0x6D3000, 0x6C84C0, 0x6E5980, 0x6FED40, 0x6BE300, 0x6A57C0, 0x688A80, 0x693E40,
     0x609600, 0x6122C0, 0x63FF80, 0x624B40, 0x664500, 0x67F1C0, 0x652C80, 0x649840,
     0x767C00, 0x77C8C0, 0x751580, 0x74A140, 0x70AF00, 0x711BC0, 0x73C680, 0x727240,
     0x7BDA00, 0x7A6EC0, 0x78B380, 0x790740, 0x7D0900, 0x7CBDC0, 0x7E6080, 0x7FD440,
     0x5BA800, 0x5A1CC0, 0x58C180, 0x597540, 0x5D7B00, 0x5CCFC0, 0x5E1280, 0x5FA640,
     0x560E00, 0x57BAC0, 0x556780, 0x54D340, 0x50DD00, 0x5169C0, 0x53B480, 0x520040,
     0x40E400, 0x4150C0, 0x438D80, 0x423940, 0x463700, 0x4783C0, 0x455E80, 0x44EA40,
     0x4D4200, 0x4CF6C0, 0x4E2B80, 0x4F9F40, 0x4B9100, 0x4A25C0, 0x48F880, 0x494C40,
     0xDA6000, 0xDBD4C0, 0xD90980, 0xD8BD40, 0xDCB300, 0xDD07C0, 0xDFDA80, 0xDE6E40,
     0xD7C600, 0xD672C0, 0xD4AF80, 0xD51B40, 0xD11500, 0xD0A1C0, 0xD27C80, 0xD3C840,
     0xC12C00, 0xC098C0, 0xC24580, 0xC3F140, 0xC7FF00, 0xC64BC0, 0xC49680, 0xC52240,
     0xCC8A00, 0xCD3EC0, 0xCFE380, 0xCE5740, 0xCA5900, 0xCBEDC0, 0xC93080, 0xC88440,
     0xECF800, 0xED4CC0, 0xEF9180, 0xEE2540, 0xEA2B00, 0xEB9FC0, 0xE94280, 0xE8F640,
     0xE15E00, 0xE0EAC0, 0xE23780, 0xE38340, 0xE78D00, 0xE639C0, 0xE4E480, 0xE55040,
     0xF7B400, 0xF600C0, 0xF4DD80, 0xF56940, 0xF16700, 0xF0D3C0, 0xF20E80, 0xF3BA40,
     0xFA1200, 0xFBA6C0, 0xF97B80, 0xF8CF40, 0xFCC100, 0xFD75C0, 0xFF8880, 0xFE3C40,
     0xB67000, 0xB7C4C0, 0xB51980, 0xB4AD40, 0xB0A300, 0xB117C0, 0xB3CA80, 0xB27E40,
     0xBBD600, 0xBA62C0, 0xB8BF80, 0xB90B40, 0xBD0500, 0xBCB1C0, 0xBE6C80, 0xBFD840,
     0xAD3C00, 0xAC88C0, 0xAE5580, 0xAFE140, 0xABEF00, 0xAA5BC0, 0xA88680, 0xA93240,
     0xA09A00, 0xA12EC0, 0xA3F380, 0xA24740, 0xA64900, 0xA7FDC0, 0xA52080, 0xA49440,
     0x80E800, 0x815CC0, 0x838180, 0x823540, 0x863B00, 0x878FC0, 0x855280, 0x84E640,
     0x8D4E00, 0x8CFAC0, 0x8E2780, 0x8F9340, 0x8B9D00, 0x8A29C0, 0x88F480, 0x894040,
     0x9BA400, 0x9A10C0, 0x98CD80, 0x997940, 0x9D7700, 0x9CC3C0, 0x9E1E80, 0x9FAA40,
     0x960200, 0x97B6C0, 0x956B80, 0x94DF40, 0x90D100, 0x9165C0, 0x93B880, 0x920C40
  ]"

text \<open>
  One iteration of the loop of \<open>ble_ll_calculate_crc24\<close>:
  \<^verbatim>\<open>tbl_idx = ((crc >> 16) ^ data[i]) & 0xFF;
  crc = ((crc << 8) ^ crc24_table[tbl_idx]) & 0xFFFFFF;\<close>
  The index is a \<open>uint8_t\<close>, hence below 256 and inside the table.
\<close>

definition crc24_step :: "u32 \<Rightarrow> u8 \<Rightarrow> u32" where
  "crc24_step crc b =
     (let tbl_idx = (ucast ((drop_bit 16 crc XOR ucast b) AND 0xFF) :: u8)
      in (push_bit 8 crc XOR crc24_table ! unat tbl_idx) AND 0xFFFFFF)"

text \<open>
  \<open>ble_ll_calculate_crc24(data, len, crc_init)\<close>; the byte list stands for
  \<open>data[0..len-1]\<close>.
\<close>

definition ble_ll_calculate_crc24 :: "u8 list \<Rightarrow> u32 \<Rightarrow> u32" where
  "ble_ll_calculate_crc24 data crc_init = foldl crc24_step (crc_init AND 0xFFFFFF) data"

subsection \<open>Bitwise references for the polynomial 0x100065B\<close>

text \<open>
  The reference the specification compares with, written from its words: a 24-bit
  register, one data bit at a time, polynomial
  \<open>x^24 + x^10 + x^9 + x^6 + x^4 + x^3 + x + 1\<close> (0x100065B). BLE shifts each byte in
  least-significant bit first; in the bit-reversed register the polynomial reads
  0xDA6000. The most-significant-bit-first variant (register not reversed, polynomial
  0x00065B) is given as well, so that the comparison does not depend on the bit order
  chosen.
\<close>

fun crc24_shift_lsb :: "nat \<Rightarrow> u32 \<Rightarrow> u32" where
  "crc24_shift_lsb 0 crc = crc"
| "crc24_shift_lsb (Suc n) crc =
     crc24_shift_lsb n (if bit crc 0 then drop_bit 1 crc XOR 0xDA6000 else drop_bit 1 crc)"

definition crc24_bitwise_lsb :: "u8 list \<Rightarrow> u32 \<Rightarrow> u32" where
  "crc24_bitwise_lsb data crc_init =
     foldl (\<lambda>crc b. crc24_shift_lsb 8 (crc XOR ucast b)) (crc_init AND 0xFFFFFF) data"

fun crc24_shift_msb :: "nat \<Rightarrow> u32 \<Rightarrow> u32" where
  "crc24_shift_msb 0 crc = crc"
| "crc24_shift_msb (Suc n) crc =
     crc24_shift_msb n
       ((if bit crc 23 then push_bit 1 crc XOR 0x00065B else push_bit 1 crc) AND 0xFFFFFF)"

definition crc24_bitwise_msb :: "u8 list \<Rightarrow> u32 \<Rightarrow> u32" where
  "crc24_bitwise_msb data crc_init =
     foldl (\<lambda>crc b. crc24_shift_msb 8 (crc XOR push_bit 16 (ucast b))) (crc_init AND 0xFFFFFF) data"

section \<open>Channel frequencies\<close>

text \<open>\<open>channel_freq_table[40]\<close> of \<open>ble_ll.c\<close>, in Hz, indexed by channel number.\<close>

definition channel_freq_table :: "u32 list" where
  "channel_freq_table = [
     2402000000, 2404000000, 2406000000, 2408000000, 2410000000,
     2412000000, 2414000000, 2416000000, 2418000000, 2420000000,
     2422000000, 2424000000, 2426000000, 2428000000, 2430000000,
     2432000000, 2434000000, 2436000000, 2438000000, 2440000000,
     2442000000, 2444000000, 2446000000, 2448000000, 2450000000,
     2452000000, 2454000000, 2456000000, 2458000000, 2460000000,
     2462000000, 2464000000, 2466000000, 2468000000, 2470000000,
     2472000000, 2474000000, 2476000000, 2478000000, 2480000000
   ]"

text \<open>\<open>ble_ll_get_frequency\<close> of \<open>ble_ll_missing.c\<close>, used by \<open>ll_scan_for_device\<close>.\<close>

definition ble_ll_get_frequency :: "u8 \<Rightarrow> u32" where
  "ble_ll_get_frequency channel =
     (if channel \<le> 39 then
        (if channel \<le> 36 then 2402000000 + ucast channel * 2000000
         else if channel = 37 then 2402000000
         else if channel = 38 then 2426000000
         else if channel = 39 then 2480000000
         else 2402000000)
      else 2402000000)"

section \<open>The connection context (\<open>ble_ll.h\<close>)\<close>

text \<open>
  \<open>struct ble_conn_context_s\<close>, with the fields the link layer reads or writes in the
  functions below. Arrays are byte lists (\<open>channel_map[5]\<close>, \<open>tx_buffer[255]\<close>,
  \<open>rx_buffer[255]\<close>). The callback pointers are not fields here: whether
  \<open>on_disconnected\<close> is set and what \<open>on_data_received\<close> does are parameters of the
  event handler.
\<close>

record ble_conn_context =
  conn_state :: ble_conn_state
  conn_interval :: u16
  slave_latency :: u16
  supervision_timeout :: u16
  channel_map :: "u8 list"
  hop_increment :: u8
  last_unmapped_channel :: u8
  num_used_channels :: u8
  current_channel :: u8
  event_counter :: u32
  anchor_point :: u64
  tx_seq_num :: u8
  next_expected_seq_num :: u8
  tx_buffer :: "u8 list"
  tx_length :: u16
  tx_pending :: bool
  rx_buffer :: "u8 list"
  consecutive_crc_errors :: u32
  total_crc_errors :: u32
  more_data :: bool

text \<open>
  The commands the link layer sends to the radio driver and the timing service, in the
  order of the calls. The functions below return them as a trace.
\<close>

datatype ll_op =
    SetStandby
  | SetPktTypeBle
  | SetBleModParams
  | SetBlePktParams
  | SetBleSyncWord "u8 list"
  | SetBleCrcSeed u32
  | SetRfFreq u32
  | SetBleWhiteningSeed u8
  | SetRx
  | SetRxWithTimeout nat
  | SetBufferBaseAddress u8 u8
  | WriteBuffer u8 "u8 list"
  | SetTx
  | ClearIrqStatus u16
  | WaitUntilUs u64
  | DelayUs nat

definition BLE_CRC_INIT_ADV :: u32 where
  "BLE_CRC_INIT_ADV = 0x555555"

definition BLE_ACCESS_ADDRESS_ADV :: u32 where
  "BLE_ACCESS_ADDRESS_ADV = 0x8E89BED6"

text \<open>
  \<open>ble_ll_start_scanning(ctx, params, filter)\<close>; \<open>ctx\<close> is not null,
  \<open>params_given\<close> says whether \<open>params\<close> is. The frequency is read from
  \<open>channel_freq_table[37]\<close>.
\<close>

definition ble_ll_start_scanning ::
  "ble_conn_context \<Rightarrow> bool \<Rightarrow> ble_status \<times> ble_conn_context \<times> ll_op list" where
  "ble_ll_start_scanning ctx params_given =
     (if \<not> params_given then (BLE_STATUS_INVALID_PARAMS, ctx, [])
      else if conn_state ctx \<noteq> CONN_STATE_IDLE then (BLE_STATUS_BUSY, ctx, [])
      else (BLE_STATUS_OK, ctx\<lparr>conn_state := CONN_STATE_SCANNING\<rparr>,
            [SetStandby, SetPktTypeBle, SetBleModParams, SetBlePktParams,
             SetBleSyncWord [0xD6, 0xBE, 0x89, 0x8E],
             SetBleCrcSeed BLE_CRC_INIT_ADV,
             SetRfFreq (channel_freq_table ! 37),
             SetBleWhiteningSeed (37 OR 0x40),
             SetRx]))"

section \<open>Channel selection (\<open>ble_ll_calculate_next_channel\<close>)\<close>

text \<open>
  The test \<^verbatim>\<open>channel_map[channel >> 3] & (1 << (channel & 0x07))\<close> for a channel number
  \<open>ch\<close>.
\<close>

definition channel_used :: "u8 list \<Rightarrow> nat \<Rightarrow> bool" where
  "channel_used cm ch = (cm ! (ch div 8) AND push_bit (ch mod 8) 1 \<noteq> 0)"

text \<open>
  The remapping loop
  \<^verbatim>\<open>for (channel = 0; channel < 37; channel++)
    if (used(channel)) { if (count == remapping_index) return channel; count++; }
  return 0;\<close>
  from the state \<open>(channel, count)\<close>. Both counters stay below 38, far from the range of
  \<open>uint8_t\<close>.
\<close>

function find_used_channel :: "u8 list \<Rightarrow> nat \<Rightarrow> nat \<Rightarrow> nat \<Rightarrow> nat" where
  "find_used_channel cm remapping_index channel count =
     (if channel < 37 then
        (if channel_used cm channel then
           (if count = remapping_index then channel
            else find_used_channel cm remapping_index (Suc channel) (Suc count))
         else find_used_channel cm remapping_index (Suc channel) count)
      else 0)"
  by pat_completeness auto
termination
  by (relation "measure (\<lambda>(cm, idx, channel, count). 37 - channel)") auto

declare find_used_channel.simps [simp del]

text \<open>
  \<open>ble_ll_calculate_next_channel(ctx)\<close>: the returned channel and the updated context.
  \<open>last_unmapped_channel + hop_increment\<close> is an \<open>int\<close> sum of two bytes. The remainder by
  \<open>num_used_channels\<close> is only computed on the remapping path; with
  \<open>num_used_channels = 0\<close> it divides by zero.
\<close>

definition ble_ll_calculate_next_channel ::
  "ble_conn_context \<Rightarrow> ll_fault + (u8 \<times> ble_conn_context)" where
  "ble_ll_calculate_next_channel ctx =
     (let unmapped_channel = (unat (last_unmapped_channel ctx) + unat (hop_increment ctx)) mod 37;
          ctx' = ctx\<lparr>last_unmapped_channel := of_nat unmapped_channel\<rparr>
      in if channel_used (channel_map ctx) unmapped_channel
         then Inr (of_nat unmapped_channel, ctx')
         else if num_used_channels ctx = 0 then Inl DivisionByZero
         else let remapping_index = unmapped_channel mod unat (num_used_channels ctx)
              in Inr (of_nat (find_used_channel (channel_map ctx) remapping_index 0 0), ctx'))"

text \<open>
  The used-channel set in the words of the specification: the data channels 0..36 whose
  bit is set in the map, in increasing order.
\<close>

definition used_channels :: "u8 list \<Rightarrow> nat list" where
  "used_channels cm = filter (channel_used cm) [0..<37]"

text \<open>
  The context as \<open>ble_ll_init\<close> leaves it: cleared by \<open>memset\<close>, state Idle, all 37
  data channels in the map. (The random local address and the radio handle are not
  modelled.)
\<close>

definition ble_ll_init :: ble_conn_context where
  "ble_ll_init =
     \<lparr>conn_state = CONN_STATE_IDLE, conn_interval = 0, slave_latency = 0,
      supervision_timeout = 0,
      channel_map = [0xFF, 0xFF, 0xFF, 0xFF, 0x1F], hop_increment = 0,
      last_unmapped_channel = 0, num_used_channels = 37, current_channel = 0,
      event_counter = 0, anchor_point = 0, tx_seq_num = 0, next_expected_seq_num = 0,
      tx_buffer = replicate 255 0, tx_length = 0, tx_pending = False,
      rx_buffer = replicate 255 0, consecutive_crc_errors = 0, total_crc_errors = 0,
      more_data = False\<rparr>"

text \<open>A context whose channel map holds channel 0 only, with hop increment 5.\<close>

definition ctx_one_channel :: ble_conn_context where
  "ctx_one_channel =
     ble_ll_init\<lparr>channel_map := [0x01, 0, 0, 0, 0], num_used_channels := 1,
                  hop_increment := 5\<rparr>"

section \<open>Access addresses\<close>

text \<open>
  \<open>ll_validate_access_address\<close> of \<open>ble_ll_missing.c\<close>. Its first loop
  \<^verbatim>\<open>for (i = 0; i < 32; i++) { if (temp & 1) { ones++; zeros = 0; } else { zeros++; ones = 0; }
    if (ones > max) max = ones; if (zeros > max) max = zeros;
    if (max > 6) return false; temp >>= 1; }\<close>
  with \<open>n\<close> iterations left; \<open>True\<close> means that the loop ran to its end. The counters
  never exceed 32.
\<close>

fun aa_run_loop :: "nat \<Rightarrow> u32 \<Rightarrow> nat \<Rightarrow> nat \<Rightarrow> nat \<Rightarrow> bool" where
  "aa_run_loop 0 temp consecutive_ones consecutive_zeros max_consecutive = True"
| "aa_run_loop (Suc n) temp consecutive_ones consecutive_zeros max_consecutive =
     (let ones = (if temp AND 1 \<noteq> 0 then consecutive_ones + 1 else 0);
          zeros = (if temp AND 1 \<noteq> 0 then 0 else consecutive_zeros + 1);
          max1 = (if ones > max_consecutive then ones else max_consecutive);
          max2 = (if zeros > max1 then zeros else max1)
      in if max2 > 6 then False
         else aa_run_loop n (drop_bit 1 temp) ones zeros max2)"

text \<open>
  The second loop
  \<^verbatim>\<open>for (i = 1; i < 32; i++) { current_bit = temp & 1;
    if (current_bit != prev_bit) transitions++; prev_bit = current_bit; temp >>= 1; }\<close>
  with \<open>n\<close> iterations left; it returns the final count.
\<close>

fun aa_transitions_loop :: "nat \<Rightarrow> u32 \<Rightarrow> u32 \<Rightarrow> nat \<Rightarrow> nat" where
  "aa_transitions_loop 0 temp prev_bit transitions = transitions"
| "aa_transitions_loop (Suc n) temp prev_bit transitions =
     (let current_bit = temp AND 1
      in aa_transitions_loop n (drop_bit 1 temp) current_bit
           (if current_bit \<noteq> prev_bit then transitions + 1 else transitions))"

text \<open>
  The third loop
  \<^verbatim>\<open>prev_bit = (aa >> 26) & 1;
  for (i = 27; i < 32; i++) { current_bit = (aa >> i) & 1;
    if (current_bit != prev_bit) last_six_transitions++; prev_bit = current_bit; }\<close>
  as a fold over the indices 27..31 on the pair \<open>(prev_bit, last_six_transitions)\<close>.
\<close>

definition aa_last_six_transitions :: "u32 \<Rightarrow> nat" where
  "aa_last_six_transitions aa =
     snd (foldl (\<lambda>(prev_bit, cnt) i.
                   let current_bit = drop_bit i aa AND 1
                   in (current_bit, if current_bit \<noteq> prev_bit then cnt + 1 else cnt))
                (drop_bit 26 aa AND 1, 0) [27..<32])"

definition ll_validate_access_address :: "u32 \<Rightarrow> bool" where
  "ll_validate_access_address aa =
     (if aa = BLE_ACCESS_ADDRESS_ADV then False
      else if \<not> aa_run_loop 32 aa 0 0 0 then False
      else if aa_transitions_loop 31 (drop_bit 1 aa) (aa AND 1) 0 < 3 then False
      else if aa_last_six_transitions aa < 2 then False
      else True)"

text \<open>
  \<open>ble_ll_get_random\<close>: one step of the 8-bit shift register \<open>g_lfsr_state\<close>; the new
  state is also the value returned.
\<close>

definition ble_ll_get_random :: "u8 \<Rightarrow> u8" where
  "ble_ll_get_random g_lfsr_state =
     (let b = (g_lfsr_state XOR drop_bit 2 g_lfsr_state XOR drop_bit 3 g_lfsr_state
                 XOR drop_bit 5 g_lfsr_state) AND 1
      in drop_bit 1 g_lfsr_state OR push_bit 7 b)"

text \<open>
  \<open>ble_ll_generate_access_address\<close>, from the register state \<open>s\<close>: the address and the
  register state it leaves. The \<open>do ... while (1)\<close> loop has no bound, so the function is
  partial: \<open>None\<close> stands for a run that never leaves the loop. The four random bytes
  are taken in the order in which the expression names them, and the shifts are those
  of a 32-bit unsigned value.
\<close>

partial_function (option) ble_ll_generate_access_address :: "u8 \<Rightarrow> (u32 \<times> u8) option" where
  "ble_ll_generate_access_address s =
     (let r1 = ble_ll_get_random s;
          r2 = ble_ll_get_random r1;
          r3 = ble_ll_get_random r2;
          r4 = ble_ll_get_random r3;
          aa = push_bit 24 (ucast r1) OR push_bit 16 (ucast r2) OR push_bit 8 (ucast r3)
                 OR ucast r4
      in if ll_validate_access_address aa then Some (aa, r4)
         else ble_ll_generate_access_address r4)"

subsection \<open>The four validity rules, as the specification words them\<close>

text \<open>
  Bit \<open>i\<close> of the address is \<open>bit aa i\<close>, bit 0 the least significant. A transition is a
  position \<open>i\<close> whose bit differs from bit \<open>i + 1\<close>.
\<close>

definition aa_has_long_run :: "u32 \<Rightarrow> bool" where
  "aa_has_long_run aa = (\<exists>i\<in>{0..<26}. \<forall>j\<in>{0..<7}. bit aa (i + j) = bit aa i)"

definition aa_transitions :: "u32 \<Rightarrow> nat \<Rightarrow> nat \<Rightarrow> nat" where
  "aa_transitions aa lo hi = length (filter (\<lambda>i. bit aa i \<noteq> bit aa (Suc i)) [lo..<hi])"

definition aa_valid_rules :: "u32 \<Rightarrow> bool" where
  "aa_valid_rules aa =
     (aa \<noteq> 0x8E89BED6
      \<and> \<not> aa_has_long_run aa
      \<and> 3 \<le> aa_transitions aa 0 31
      \<and> 2 \<le> aa_transitions aa 26 31)"

declare ble_ll_generate_access_address.simps [code]

subsection \<open>Invariants of the run-length loop\<close>

text \<open>
  Used in the proofs only. \<open>run_inv f k b m\<close>: the \<open>m\<close> bits below position \<open>k\<close> all
  equal \<open>b\<close> and the bit below them does not. \<open>no_long_run f k\<close>: no seven consecutive
  positions below \<open>k\<close> carry the same bit.
\<close>

definition run_inv :: "(nat \<Rightarrow> bool) \<Rightarrow> nat \<Rightarrow> bool \<Rightarrow> nat \<Rightarrow> bool" where
  "run_inv f k b m = (m \<le> k \<and> (\<forall>j<m. f (k - 1 - j) = b) \<and> (m < k \<longrightarrow> f (k - 1 - m) \<noteq> b))"

definition no_long_run :: "(nat \<Rightarrow> bool) \<Rightarrow> nat \<Rightarrow> bool" where
  "no_long_run f k = (\<forall>i. i + 7 \<le> k \<longrightarrow> (\<exists>j<7. f (i + j) \<noteq> f i))"

section \<open>Link-layer data path (\<open>ble_ll.c\<close>)\<close>

subsection \<open>The data PDU header\<close>

text \<open>
  \<open>ble_data_pdu_t\<close> is a packed struct whose first byte holds the bit-fields
  \<open>llid:2, nesn:1, sn:1, md:1, rfu:3\<close>, allocated from the least significant bit (the
  layout of the target's compiler, and the wire format of the specification); the
  second byte is \<open>length\<close>, the payload starts at byte 2. Storing a byte in a one-bit
  field keeps its lowest bit.
\<close>

definition pdu_llid :: "u8 \<Rightarrow> u8" where
  "pdu_llid b = b AND 0x03"

definition pdu_nesn :: "u8 \<Rightarrow> u8" where
  "pdu_nesn b = drop_bit 2 b AND 1"

definition pdu_sn :: "u8 \<Rightarrow> u8" where
  "pdu_sn b = drop_bit 3 b AND 1"

definition pdu_md :: "u8 \<Rightarrow> u8" where
  "pdu_md b = drop_bit 4 b AND 1"

definition pdu_set_llid :: "u8 \<Rightarrow> u8 \<Rightarrow> u8" where
  "pdu_set_llid b v = (b AND 0xFC) OR (v AND 0x03)"

definition pdu_set_nesn :: "u8 \<Rightarrow> u8 \<Rightarrow> u8" where
  "pdu_set_nesn b v = (b AND 0xFB) OR push_bit 2 (v AND 1)"

definition pdu_set_sn :: "u8 \<Rightarrow> u8 \<Rightarrow> u8" where
  "pdu_set_sn b v = (b AND 0xF7) OR push_bit 3 (v AND 1)"

definition pdu_set_md :: "u8 \<Rightarrow> u8 \<Rightarrow> u8" where
  "pdu_set_md b v = (b AND 0xEF) OR push_bit 4 (v AND 1)"

definition LL_TERMINATE_IND :: u8 where "LL_TERMINATE_IND = 0x02"
definition LL_FEATURE_REQ :: u8 where "LL_FEATURE_REQ = 0x08"
definition LL_FEATURE_RSP :: u8 where "LL_FEATURE_RSP = 0x09"
definition LL_VERSION_IND :: u8 where "LL_VERSION_IND = 0x0C"
definition SX128X_IRQ_TX_DONE :: u16 where "SX128X_IRQ_TX_DONE = 0x01"
definition SX128X_IRQ_RX_DONE :: u16 where "SX128X_IRQ_RX_DONE = 0x02"
definition SX128X_IRQ_CRC_ERROR :: u16 where "SX128X_IRQ_CRC_ERROR = 0x40"

subsection \<open>\<open>ble_ll_send_data\<close>\<close>

text \<open>
  \<open>ble_ll_send_data(ctx, data, len)\<close> with \<open>ctx\<close> not null; \<open>data = None\<close> is the null
  pointer. The function writes \<open>tx_buffer[0..5]\<close> and then copies \<open>len\<close> bytes to
  \<open>tx_buffer[6..]\<close>; \<open>tx_buffer\<close> is declared with 255 bytes, so the copy ends past the
  array when \<open>6 + len > 255\<close>. The fault carries the number of bytes the PDU needs.
\<close>

definition ble_ll_send_data ::
  "ble_conn_context \<Rightarrow> u8 list option \<Rightarrow> u16 \<Rightarrow> ll_fault + (ble_status \<times> ble_conn_context)" where
  "ble_ll_send_data ctx data len =
     (case data of
        None \<Rightarrow> Inr (BLE_STATUS_INVALID_PARAMS, ctx)
      | Some d \<Rightarrow>
          if len = 0 \<or> len > 251 then Inr (BLE_STATUS_INVALID_PARAMS, ctx)
          else if conn_state ctx \<noteq> CONN_STATE_CONNECTED then Inr (BLE_STATUS_NOT_CONNECTED, ctx)
          else if tx_pending ctx then Inr (BLE_STATUS_BUSY, ctx)
          else if length d < unat len then Inl SourceOverread
          else if 6 + unat len > 255 then Inl (TxBufferOverflow (6 + unat len))
          else Inr (BLE_STATUS_OK,
                 ctx\<lparr>tx_buffer :=
                        [0x02, ucast (len + 4), ucast (len AND 0xFF),
                         ucast (drop_bit 8 len AND 0xFF), 0x04, 0x00]
                        @ take (unat len) d @ drop (6 + unat len) (tx_buffer ctx),
                      tx_length := len + 6,
                      tx_pending := True\<rparr>))"

subsection \<open>\<open>ll_handle_connection_event\<close>\<close>

text \<open>
  What the radio shows during one event. \<open>tx_done_poll\<close>: the index, from 0, of the
  first status read of the TX wait loop that has TX_DONE set (\<open>None\<close>: none has).
  \<open>rx_irq_status\<close>: the status word that ends the RX wait, with RX_DONE set, or a word
  without RX_DONE when the 2 ms window closes first. \<open>rx_data\<close>: the bytes
  \<open>sx128x_read_buffer\<close> delivers, \<open>rx_len\<close> of them (a \<open>uint8_t\<close>).
\<close>

record radio_event =
  tx_done_poll :: "nat option"
  rx_irq_status :: u16
  rx_data :: "u8 list"

text \<open>
  The callbacks of the context. \<open>on_data_received\<close> runs in the middle of the handler
  and may change the context it is given (the application's callback reaches
  \<open>ble_ll_send_data\<close>); it receives the bytes from \<open>&payload[4]\<close> on and a length.
  \<open>on_disconnected\<close> is always the handler's last action, so the handler returns the
  reason it passes and the context as it is at the call; the flag says whether the
  pointer is set.
\<close>

record ll_callbacks =
  on_data_received :: "(ble_conn_context \<Rightarrow> u8 list \<Rightarrow> u16 \<Rightarrow> ble_conn_context) option"
  on_disconnected :: bool

text \<open>
  The value of \<open>timeout\<close> after
  \<^verbatim>\<open>timeout = 1000; while (timeout-- && !(irq & TX_DONE)) delay(1);\<close>
  When no read shows TX_DONE the last decrement wraps around.
\<close>

definition tx_wait_timeout :: "nat option \<Rightarrow> u32" where
  "tx_wait_timeout p =
     (case p of
        Some k \<Rightarrow> if k < 1000 then of_nat (999 - k) else 0xFFFFFFFF
      | None \<Rightarrow> 0xFFFFFFFF)"

text \<open>
  The block \<open>Master TX\<close>. With nothing pending the empty PDU is written into
  \<open>tx_buffer\<close> itself; NESN, SN and MD are stamped into byte 0 in either case.
  \<open>sx128x_write_buffer\<close> reads \<open>length + 2\<close> bytes from the 255-byte array.
\<close>

definition ll_event_tx ::
  "ble_conn_context \<Rightarrow> nat option \<Rightarrow> ll_fault + (ble_conn_context \<times> ll_op list)" where
  "ll_event_tx ctx p =
     (if tx_pending ctx \<or> event_counter ctx = 0 then
        (let b0 = (if \<not> tx_pending ctx then pdu_set_llid (tx_buffer ctx ! 0) 0x01
                   else tx_buffer ctx ! 0);
             b1 = (if \<not> tx_pending ctx then 0 else tx_buffer ctx ! 1);
             hdr = pdu_set_md
                     (pdu_set_sn (pdu_set_nesn b0 (next_expected_seq_num ctx)) (tx_seq_num ctx))
                     (if more_data ctx then 1 else 0);
             buf = (tx_buffer ctx)[0 := hdr, 1 := b1];
             n = unat b1 + 2
         in if n > 255 then Inl (TxBufferOverread n)
            else Inr (ctx\<lparr>tx_buffer := buf\<rparr>,
                   (if event_counter ctx = 0 then [WaitUntilUs (anchor_point ctx)] else [])
                   @ [SetBufferBaseAddress 0x00 0x80, WriteBuffer 0x00 (take n buf), SetTx]
                   @ (if tx_wait_timeout p > 0 then [ClearIrqStatus SX128X_IRQ_TX_DONE] else [])))
      else Inr (ctx, []))"

text \<open>
  The acknowledgement check and the MD bit, read from the header in \<open>rx_buffer\<close>:
  \<^verbatim>\<open>if (rx_pdu->nesn != ctx->tx_seq_num) { tx_seq_num ^= 1; tx_pending = false; }
  ctx->more_data = rx_pdu->md;\<close>
\<close>

definition ll_rx_ack :: "ble_conn_context \<Rightarrow> ble_conn_context" where
  "ll_rx_ack ctx =
     (let hdr = rx_buffer ctx ! 0;
          c = (if pdu_nesn hdr \<noteq> tx_seq_num ctx
               then ctx\<lparr>tx_seq_num := tx_seq_num ctx XOR 1, tx_pending := False\<rparr>
               else ctx)
      in c\<lparr>more_data := (pdu_md hdr \<noteq> 0)\<rparr>)"

datatype rx_result = RxProcessed ble_conn_context | RxTerminated ble_conn_context u8

text \<open>
  The body of \<open>if (irq & RX_DONE) { ... break; }\<close>. Only the first \<open>rx_len\<close> bytes of
  \<open>rx_buffer\<close> are overwritten. On LL_TERMINATE_IND the handler sets the state, calls
  \<open>on_disconnected\<close> and returns at once.
\<close>

definition ll_process_received ::
  "(ble_conn_context \<Rightarrow> u8 list \<Rightarrow> u16 \<Rightarrow> ble_conn_context) option
   \<Rightarrow> ble_conn_context \<Rightarrow> u8 list \<Rightarrow> rx_result" where
  "ll_process_received cb ctx data =
     (let d = take 255 data;
          c1 = ctx\<lparr>rx_buffer := d @ drop (length d) (rx_buffer ctx),
                   consecutive_crc_errors := 0\<rparr>;
          hdr = rx_buffer c1 ! 0;
          len = rx_buffer c1 ! 1
      in if pdu_sn hdr = next_expected_seq_num c1 then
           (let c2 = c1\<lparr>next_expected_seq_num := next_expected_seq_num c1 XOR 1\<rparr>
            in if len > 0 then
                 (if pdu_llid hdr = 0x02 then
                    RxProcessed (ll_rx_ack
                      (case cb of
                         None \<Rightarrow> c2
                       | Some f \<Rightarrow> f c2 (drop 6 (rx_buffer c2)) (ucast len - 4)))
                  else if pdu_llid hdr = 0x03 then
                    (if rx_buffer c2 ! 2 = LL_TERMINATE_IND then
                       RxTerminated (c2\<lparr>conn_state := CONN_STATE_IDLE\<rparr>) (rx_buffer c2 ! 3)
                     else if rx_buffer c2 ! 2 = LL_VERSION_IND then RxProcessed (ll_rx_ack c2)
                     else if rx_buffer c2 ! 2 = LL_FEATURE_REQ then
                       RxProcessed (ll_rx_ack
                         (c2\<lparr>tx_buffer := [0x03, 9, LL_FEATURE_RSP, 0, 0, 0, 0, 0, 0, 0, 0]
                                            @ drop 11 (tx_buffer c2),
                              tx_length := 11,
                              tx_pending := True\<rparr>))
                     else RxProcessed (ll_rx_ack c2))
                  else RxProcessed (ll_rx_ack c2))
               else RxProcessed (ll_rx_ack c2))
         else RxProcessed (ll_rx_ack c1))"

text \<open>
  The end of the handler: event counter, next anchor, and the connection-loss test on
  \<open>consecutive_crc_errors\<close>.
\<close>

definition ll_event_finish ::
  "ll_callbacks \<Rightarrow> ble_conn_context \<Rightarrow> ll_op list
   \<Rightarrow> ble_conn_context \<times> ll_op list \<times> u8 option" where
  "ll_event_finish cbs ctx ops =
     (let c = ctx\<lparr>event_counter := event_counter ctx + 1,
                  anchor_point := anchor_point ctx + ucast (conn_interval ctx)\<rparr>
      in if consecutive_crc_errors c > 6
         then (c\<lparr>conn_state := CONN_STATE_IDLE\<rparr>, ops,
               if on_disconnected cbs then Some 0x08 else None)
         else (c, ops, None))"

text \<open>
  \<open>ll_handle_connection_event(ctx)\<close>: the context it leaves, the commands it issued and
  the reason passed to \<open>on_disconnected\<close>, if it called it. The status reads and the
  one-microsecond delays of the two wait loops are not part of the trace.
\<close>

definition ll_handle_connection_event ::
  "ll_callbacks \<Rightarrow> radio_event \<Rightarrow> ble_conn_context
   \<Rightarrow> ll_fault + (ble_conn_context \<times> ll_op list \<times> u8 option)" where
  "ll_handle_connection_event cbs rin ctx =
     (case ble_ll_calculate_next_channel ctx of
        Inl f \<Rightarrow> Inl f
      | Inr (channel, c0) \<Rightarrow>
          (case ll_event_tx c0 (tx_done_poll rin) of
             Inl f \<Rightarrow> Inl f
           | Inr (c1, tx_ops) \<Rightarrow>
               (let ops = [SetRfFreq (channel_freq_table ! unat channel),
                           SetBleWhiteningSeed (channel OR 0x40)]
                          @ tx_ops @ [DelayUs 150, SetRxWithTimeout 2]
                in if rx_irq_status rin AND SX128X_IRQ_RX_DONE \<noteq> 0 then
                     (case ll_process_received (on_data_received cbs) c1 (rx_data rin) of
                        RxTerminated c reason \<Rightarrow>
                          Inr (c, ops, if on_disconnected cbs then Some reason else None)
                      | RxProcessed c \<Rightarrow> Inr (ll_event_finish cbs c ops))
                   else
                     Inr (ll_event_finish cbs
                            (c1\<lparr>consecutive_crc_errors := consecutive_crc_errors c1 + 1,
                                 total_crc_errors := total_crc_errors c1 + 1\<rparr>)
                            ops))))"


subsection \<open>Well-formed contexts\<close>

text \<open>
  The contexts on which the event handler runs without fault: the arrays have their
  declared sizes, \<open>num_used_channels\<close> is the number of used data channels and at least
  1, and a pending PDU's length byte keeps \<open>length + 2\<close> within \<open>tx_buffer\<close>.
\<close>

definition ll_wf :: "ble_conn_context \<Rightarrow> bool" where
  "ll_wf ctx =
     (length (channel_map ctx) = 5
      \<and> unat (num_used_channels ctx) = length (used_channels (channel_map ctx))
      \<and> 1 \<le> unat (num_used_channels ctx)
      \<and> length (tx_buffer ctx) = 255
      \<and> length (rx_buffer ctx) = 255
      \<and> (tx_pending ctx \<longrightarrow> unat (tx_buffer ctx ! 1) + 2 \<le> 255))"

text \<open>What \<open>rx_buffer\<close> holds after \<open>sx128x_read_buffer\<close> has stored the received bytes.\<close>

definition rx_after_read :: "ble_conn_context \<Rightarrow> u8 list \<Rightarrow> u8 list" where
  "rx_after_read ctx data = take 255 data @ drop (length (take 255 data)) (rx_buffer ctx)"

text \<open>
  A received buffer that the handler treats as a new LL control PDU with the given
  opcode: SN as expected, non-zero length, LLID 3.
\<close>

definition rx_new_control :: "ble_conn_context \<Rightarrow> u8 list \<Rightarrow> u8 \<Rightarrow> bool" where
  "rx_new_control ctx rx opc =
     (pdu_sn (rx ! 0) = next_expected_seq_num ctx \<and> rx ! 1 > 0
      \<and> pdu_llid (rx ! 0) = 0x03 \<and> rx ! 2 = opc)"



subsection \<open>The transmitted PDU, named\<close>

text \<open>
  Names for the parts of \<open>ll_event_tx\<close>, used to state what is sent: the length byte,
  the stamped header byte and the buffer after the block.
\<close>

definition tx_len_byte :: "ble_conn_context \<Rightarrow> u8" where
  "tx_len_byte ctx = (if \<not> tx_pending ctx then 0 else tx_buffer ctx ! 1)"

definition tx_hdr_byte :: "ble_conn_context \<Rightarrow> u8" where
  "tx_hdr_byte ctx =
     pdu_set_md
       (pdu_set_sn
          (pdu_set_nesn
             (if \<not> tx_pending ctx then pdu_set_llid (tx_buffer ctx ! 0) 0x01
              else tx_buffer ctx ! 0)
             (next_expected_seq_num ctx))
          (tx_seq_num ctx))
       (if more_data ctx then 1 else 0)"

definition tx_stamped :: "ble_conn_context \<Rightarrow> u8 list" where
  "tx_stamped ctx =
     (if tx_pending ctx \<or> event_counter ctx = 0
      then (tx_buffer ctx)[0 := tx_hdr_byte ctx, 1 := tx_len_byte ctx]
      else tx_buffer ctx)"

definition tx_pdu :: "ble_conn_context \<Rightarrow> u8 list" where
  "tx_pdu ctx = take (unat (tx_len_byte ctx) + 2) (tx_stamped ctx)"

definition tx_ops :: "ble_conn_context \<Rightarrow> nat option \<Rightarrow> ll_op list" where
  "tx_ops ctx p =
     (if tx_pending ctx \<or> event_counter ctx = 0 then
        (if event_counter ctx = 0 then [WaitUntilUs (anchor_point ctx)] else [])
        @ [SetBufferBaseAddress 0x00 0x80, WriteBuffer 0x00 (tx_pdu ctx), SetTx]
        @ (if tx_wait_timeout p > 0 then [ClearIrqStatus SX128X_IRQ_TX_DONE] else [])
      else [])"

text \<open>
  The context after the channel computation and the TX block of an event, and the
  complete command trace of an event on channel \<open>ch\<close>.
\<close>

definition after_tx :: "ble_conn_context \<Rightarrow> ble_conn_context" where
  "after_tx ctx =
     ctx\<lparr>last_unmapped_channel :=
           of_nat ((unat (last_unmapped_channel ctx) + unat (hop_increment ctx)) mod 37),
         tx_buffer := tx_stamped ctx\<rparr>"

definition event_ops :: "ble_conn_context \<Rightarrow> u8 \<Rightarrow> nat option \<Rightarrow> ll_op list" where
  "event_ops ctx ch p =
     [SetRfFreq (channel_freq_table ! unat ch), SetBleWhiteningSeed (ch OR 0x40)]
     @ tx_ops ctx p @ [DelayUs 150, SetRxWithTimeout 2]"

subsection \<open>Runs of events without a reply\<close>

text \<open>
  One event during which the radio reports TX_DONE at once and no RX_DONE: the peer is
  silent.
\<close>

definition silent_event :: radio_event where
  "silent_event = \<lparr>tx_done_poll = Some 0, rx_irq_status = 0, rx_data = []\<rparr>"


subsection \<open>Concrete contexts\<close>

text \<open>
  A connected context: as initialised, then Connected with hop increment 7, a
  connection interval of 50 ms (50000 \<open>\<mu>\<close>s) and a supervision timeout of 100 ms.
\<close>

definition ctx_connected :: ble_conn_context where
  "ctx_connected =
     ble_ll_init\<lparr>conn_state := CONN_STATE_CONNECTED, hop_increment := 7,
                  conn_interval := 50000, supervision_timeout := 100\<rparr>"

definition cbs_none :: ll_callbacks where
  "cbs_none = \<lparr>on_data_received = None, on_disconnected = True\<rparr>"

text \<open>
  The context after \<open>ble_ll_send_data\<close> has queued the one-byte payload 0xAA on
  \<open>ctx_connected\<close>: the data PDU is pending in \<open>tx_buffer\<close>.
\<close>

definition ctx_pending :: ble_conn_context where
  "ctx_pending =
     ctx_connected\<lparr>tx_buffer := [0x02, 0x05, 0x01, 0x00, 0x04, 0x00, 0xAA] @ replicate 248 0,
                    tx_length := 7, tx_pending := True\<rparr>"


definition empty_ack_reply :: radio_event where
  "empty_ack_reply = \<lparr>tx_done_poll = Some 0, rx_irq_status = 0x02, rx_data = [0x05, 0x00]\<rparr>"

subsection \<open>Reading a command trace\<close>

text \<open>The PDUs written to the radio buffer, and the number of times TX was started.\<close>

fun written :: "ll_op \<Rightarrow> u8 list option" where
  "written (WriteBuffer off bs) = Some bs"
| "written _ = None"

definition pdus_written :: "ll_op list \<Rightarrow> u8 list list" where
  "pdus_written ops = List.map_filter written ops"

definition tx_starts :: "ll_op list \<Rightarrow> nat" where
  "tx_starts ops = length (filter (\<lambda>op. op = SetTx) ops)"

section \<open>ATT and GATT client (\<open>ble_gatt.c\<close>)\<close>

definition ATT_MTU_DEFAULT :: u16 where "ATT_MTU_DEFAULT = 23"
definition ATT_MTU_MAX :: u16 where "ATT_MTU_MAX = 247"
definition ATT_ERROR_RSP :: u8 where "ATT_ERROR_RSP = 0x01"
definition ATT_EXCHANGE_MTU_RSP :: u8 where "ATT_EXCHANGE_MTU_RSP = 0x03"
definition ATT_READ_BY_TYPE_REQ :: u8 where "ATT_READ_BY_TYPE_REQ = 0x08"
definition ATT_READ_BY_TYPE_RSP :: u8 where "ATT_READ_BY_TYPE_RSP = 0x09"
definition ATT_READ_REQ :: u8 where "ATT_READ_REQ = 0x0A"
definition ATT_READ_RSP :: u8 where "ATT_READ_RSP = 0x0B"
definition ATT_READ_BLOB_RSP :: u8 where "ATT_READ_BLOB_RSP = 0x0D"
definition ATT_READ_BY_GROUP_RSP :: u8 where "ATT_READ_BY_GROUP_RSP = 0x11"
definition ATT_WRITE_REQ :: u8 where "ATT_WRITE_REQ = 0x12"
definition ATT_WRITE_RSP :: u8 where "ATT_WRITE_RSP = 0x13"
definition ATT_HANDLE_VALUE_NTF :: u8 where "ATT_HANDLE_VALUE_NTF = 0x1B"
definition ATT_HANDLE_VALUE_IND :: u8 where "ATT_HANDLE_VALUE_IND = 0x1D"
definition ATT_HANDLE_VALUE_CFM :: u8 where "ATT_HANDLE_VALUE_CFM = 0x1E"

text \<open>
  \<open>gatt_client_context_t\<close>. \<open>ll_ctx\<close> points to the one connection context; the model
  holds that context in the field. Of the handle set only \<open>rx_char_handle\<close> is read
  below.
\<close>

record gatt_client_context =
  ll_ctx :: ble_conn_context
  mtu :: u16
  pending_op :: u8
  pending_handle :: u16
  response_buffer :: "u8 list"
  response_length :: u16
  response_received :: bool
  rx_char_handle :: u16

text \<open>
  \<open>att_msg_t\<close>: an opcode and a union of parameter structs. The union is kept as its
  246 bytes, little-endian: \<open>read.handle\<close>, \<open>write.handle\<close> and
  \<open>read_by_type.starting_handle\<close> are bytes 0..1, \<open>ending_handle\<close> bytes 2..3, \<open>uuid16\<close>
  bytes 4..5, and \<open>write.value\<close> the 244 bytes from byte 2 on.
\<close>

record att_msg =
  opcode :: u8
  params :: "u8 list"

definition le16 :: "u8 list \<Rightarrow> nat \<Rightarrow> u16" where
  "le16 bs i = ucast (bs ! i) OR push_bit 8 (ucast (bs ! Suc i))"

definition lo_byte :: "u16 \<Rightarrow> u8" where
  "lo_byte x = ucast (x AND 0xFF)"

definition hi_byte :: "u16 \<Rightarrow> u8" where
  "hi_byte x = ucast (drop_bit 8 x AND 0xFF)"

text \<open>
  The tail of \<open>gatt_send_att_request\<close>: record the pending opcode and handle, then hand
  the PDU to \<open>ble_ll_send_data\<close> and return its status.
\<close>

definition gatt_submit ::
  "gatt_client_context \<Rightarrow> att_msg \<Rightarrow> u8 list \<Rightarrow> u16
   \<Rightarrow> ll_fault + (ble_status \<times> gatt_client_context)" where
  "gatt_submit ctx req pdu pdu_len =
     (let c = ctx\<lparr>pending_op := opcode req, pending_handle := le16 (params req) 0\<rparr>
      in case ble_ll_send_data (ll_ctx c) (Some pdu) pdu_len of
           Inl f \<Rightarrow> Inl f
         | Inr (st, l) \<Rightarrow> Inr (st, c\<lparr>ll_ctx := l\<rparr>))"

text \<open>
  \<open>gatt_send_att_request(ctx, req)\<close>. There is no test of an outstanding request: the
  function clears the response flag and builds the PDU at once. For a write request it
  copies \<open>mtu - 3\<close> bytes of \<open>write.value\<close> (244 bytes) to \<open>pdu + 3\<close> (\<open>pdu\<close> has 247
  bytes), whatever the length of the value; \<open>mtu - 3\<close> is an \<open>int\<close>, negative for an MTU
  below 3.
\<close>

definition gatt_send_att_request ::
  "gatt_client_context \<Rightarrow> att_msg \<Rightarrow> ll_fault + (ble_status \<times> gatt_client_context)" where
  "gatt_send_att_request ctx req =
     (let c = ctx\<lparr>response_received := False, response_length := 0\<rparr>;
          p = params req
      in if opcode req = ATT_READ_BY_TYPE_REQ then
           gatt_submit c req
             [opcode req, lo_byte (le16 p 0), hi_byte (le16 p 0), lo_byte (le16 p 2),
              hi_byte (le16 p 2), lo_byte (le16 p 4), hi_byte (le16 p 4)] 7
         else if opcode req = ATT_READ_REQ then
           gatt_submit c req [opcode req, lo_byte (le16 p 0), hi_byte (le16 p 0)] 3
         else if opcode req = ATT_WRITE_REQ then
           (if unat (mtu c) < 3 \<or> unat (mtu c) - 3 > 244 then Inl CopyLengthInvalid
            else gatt_submit c req
                   ([opcode req, lo_byte (le16 p 0), hi_byte (le16 p 0)]
                    @ take (unat (mtu c) - 3) (drop 2 p))
                   (3 + (mtu c - 3)))
         else Inr (BLE_STATUS_INVALID_PARAMS, c))"

text \<open>
  \<open>gatt_process_notification\<close>: a value for \<open>rx_char_handle\<close> goes to the link layer's
  \<open>on_data_received\<close> callback, with the length \<open>response_length - 3\<close>.
\<close>

definition gatt_process_notification ::
  "(ble_conn_context \<Rightarrow> u8 list \<Rightarrow> u16 \<Rightarrow> ble_conn_context) option
   \<Rightarrow> gatt_client_context \<Rightarrow> u16 \<Rightarrow> u8 list \<Rightarrow> gatt_client_context" where
  "gatt_process_notification cb ctx handle val =
     (if handle = rx_char_handle ctx then
        (case cb of
           None \<Rightarrow> ctx
         | Some f \<Rightarrow> ctx\<lparr>ll_ctx := f (ll_ctx ctx) val (response_length ctx - 3)\<rparr>)
      else ctx)"

text \<open>
  The common part of the notification and indication cases: the handle is read from
  \<open>data[1..2]\<close> and \<open>len - 3\<close> bytes are copied to the 244-byte \<open>value\<close>.
\<close>

definition gatt_rx_value ::
  "(ble_conn_context \<Rightarrow> u8 list \<Rightarrow> u16 \<Rightarrow> ble_conn_context) option
   \<Rightarrow> gatt_client_context \<Rightarrow> u8 list \<Rightarrow> u16 \<Rightarrow> ll_fault + gatt_client_context" where
  "gatt_rx_value cb ctx d len =
     (if unat len < 3 \<or> unat len - 3 > 244 then Inl CopyLengthInvalid
      else if length d < unat len then Inl SourceOverread
      else Inr (gatt_process_notification cb ctx (le16 d 1) (take (unat len - 3) (drop 3 d))))"

text \<open>
  \<open>ble_gatt_handle_rx_data(ctx, data, len)\<close> with \<open>ctx\<close> not null. In the MTU response
  case the stored MTU is limited from above only. Bytes of \<open>data\<close> are read where the
  caller's buffer has them; \<open>response_buffer\<close> has 247 bytes.
\<close>

definition ble_gatt_handle_rx_data ::
  "(ble_conn_context \<Rightarrow> u8 list \<Rightarrow> u16 \<Rightarrow> ble_conn_context) option
   \<Rightarrow> gatt_client_context \<Rightarrow> u8 list option \<Rightarrow> u16 \<Rightarrow> ll_fault + gatt_client_context" where
  "ble_gatt_handle_rx_data cb ctx data len =
     (case data of
        None \<Rightarrow> Inr ctx
      | Some d \<Rightarrow>
          if len = 0 then Inr ctx
          else if length d < 1 then Inl SourceOverread
          else if d ! 0 = ATT_ERROR_RSP then
            Inr (ctx\<lparr>response_buffer := (response_buffer ctx)[0 := d ! 0],
                     response_length := len, response_received := True\<rparr>)
          else if d ! 0 = ATT_EXCHANGE_MTU_RSP then
            (if length d < 3 then Inl SourceOverread
             else Inr (ctx\<lparr>mtu := (if le16 d 1 > ATT_MTU_MAX then ATT_MTU_MAX else le16 d 1),
                          response_received := True\<rparr>))
          else if d ! 0 = ATT_READ_RSP \<or> d ! 0 = ATT_READ_BLOB_RSP
                  \<or> d ! 0 = ATT_READ_BY_TYPE_RSP \<or> d ! 0 = ATT_READ_BY_GROUP_RSP
                  \<or> d ! 0 = ATT_WRITE_RSP then
            (if unat len > 247 then Inl CopyLengthInvalid
             else if length d < unat len then Inl SourceOverread
             else Inr (ctx\<lparr>response_buffer :=
                            take (unat len) d @ drop (unat len) (response_buffer ctx),
                          response_length := len, response_received := True\<rparr>))
          else if d ! 0 = ATT_HANDLE_VALUE_NTF then gatt_rx_value cb ctx d len
          else if d ! 0 = ATT_HANDLE_VALUE_IND then
            (case ble_ll_send_data (ll_ctx ctx) (Some [ATT_HANDLE_VALUE_CFM]) 1 of
               Inl f \<Rightarrow> Inl f
             | Inr (st, l) \<Rightarrow> gatt_rx_value cb (ctx\<lparr>ll_ctx := l\<rparr>) d len)
          else Inr ctx)"


subsection \<open>Concrete GATT contexts and requests\<close>

text \<open>
  The client as \<open>ble_gatt_init\<close> leaves it (MTU 23) on the connected link, with the
  Nordic UART handle set; and a read request for a handle, as
  \<open>gatt_build_read_request\<close> fills a cleared message.
\<close>

definition gatt_idle :: gatt_client_context where
  "gatt_idle =
     \<lparr>ll_ctx = ctx_connected, mtu = ATT_MTU_DEFAULT, pending_op = 0, pending_handle = 0,
      response_buffer = replicate 247 0, response_length = 0, response_received = False,
      rx_char_handle = 0x0011\<rparr>"

definition read_request :: "u16 \<Rightarrow> att_msg" where
  "read_request h =
     \<lparr>opcode = ATT_READ_REQ, params = [lo_byte h, hi_byte h] @ replicate 244 0\<rparr>"

definition status_of :: "ll_fault + (ble_status \<times> 'a) \<Rightarrow> ble_status option" where
  "status_of r = (case r of Inl f \<Rightarrow> None | Inr (st, c) \<Rightarrow> Some st)"

text \<open>
  The two contexts of a request in flight: after \<open>gatt_send_att_request\<close> has queued a
  read of handle 3 (\<open>ll_sent\<close>, \<open>gatt_sent\<close>), and after the next connection event, in
  which the peer acknowledges that PDU with an empty PDU and sends no ATT response
  (\<open>ll_acked\<close>).
\<close>

definition ll_sent :: ble_conn_context where
  "ll_sent =
     ctx_connected\<lparr>tx_buffer := [0x02, 0x07, 0x03, 0x00, 0x04, 0x00, 0x0A, 0x03, 0x00]
                                   @ replicate 246 0,
                    tx_length := 9, tx_pending := True\<rparr>"

definition gatt_sent :: gatt_client_context where
  "gatt_sent = gatt_idle\<lparr>ll_ctx := ll_sent, pending_op := ATT_READ_REQ, pending_handle := 3\<rparr>"

definition ll_acked :: ble_conn_context where
  "ll_acked =
     ll_sent\<lparr>last_unmapped_channel := 7, event_counter := 1, anchor_point := 50000,
              tx_seq_num := 1, next_expected_seq_num := 1, tx_pending := False,
              rx_buffer := [0x05, 0x00] @ replicate 253 0\<rparr>"





section \<open>Verification\<close>

subsection \<open>Channel selection\<close>

lemma find_used_channel_nth:
  "channel \<le> 37 \<Longrightarrow> count = length (filter (channel_used cm) [0..<channel]) \<Longrightarrow>
   count \<le> idx \<Longrightarrow> idx < length (used_channels cm) \<Longrightarrow>
   find_used_channel cm idx channel count = used_channels cm ! idx"
proof (induction cm idx channel count rule: find_used_channel.induct)
  case (1 cm idx channel count)
  show ?case
  proof (cases "channel < 37")
    case False
    with "1.prems" have "channel = 37" by simp
    with "1.prems" show ?thesis by (simp add: used_channels_def)
  next
    case lt: True
    have split: "used_channels cm =
        filter (channel_used cm) [0..<channel] @ filter (channel_used cm) [channel..<37]"
      using lt unfolding used_channels_def
      by (metis filter_append le_add_diff_inverse less_imp_le_nat upt_add_eq_append zero_le)
    have hd: "[channel..<37] = channel # [Suc channel..<37]"
      using lt by (simp add: upt_conv_Cons)
    show ?thesis
    proof (cases "channel_used cm channel")
      case used: True
      show ?thesis
      proof (cases "count = idx")
        case True
        then have "used_channels cm ! idx = channel"
          using "1.prems"(2) used by (simp add: split hd nth_append)
        then show ?thesis
          using lt used True by (simp add: find_used_channel.simps [of cm idx channel])
      next
        case False
        have "find_used_channel cm idx (Suc channel) (Suc count) = used_channels cm ! idx"
          using lt used False "1.prems" by (intro "1.IH"(1)) auto
        then show ?thesis
          using lt used False by (simp add: find_used_channel.simps [of cm idx channel])
      qed
    next
      case unused: False
      have "find_used_channel cm idx (Suc channel) count = used_channels cm ! idx"
        using lt unused "1.prems" by (intro "1.IH"(2)) auto
      then show ?thesis
        using lt unused by (simp add: find_used_channel.simps [of cm idx channel])
    qed
  qed
qed

lemma used_channels_nth_used:
  "idx < length (used_channels cm) \<Longrightarrow>
   channel_used cm (used_channels cm ! idx) \<and> used_channels cm ! idx < 37"
proof -
  assume "idx < length (used_channels cm)"
  then have "used_channels cm ! idx \<in> set (used_channels cm)" by simp
  then show ?thesis by (auto simp: used_channels_def)
qed

lemma unat_of_nat_channel: "n < 37 \<Longrightarrow> unat (of_nat n :: u8) = n"
  by (simp add: unat_of_nat take_bit_nat_eq_self)

lemma next_channel_result:
  assumes len: "length (channel_map ctx) = 5"
    and cnt: "unat (num_used_channels ctx) = length (used_channels (channel_map ctx))"
    and pos: "1 \<le> unat (num_used_channels ctx)"
  shows "\<exists>ch. ble_ll_calculate_next_channel ctx =
           Inr (ch, ctx\<lparr>last_unmapped_channel :=
                  of_nat ((unat (last_unmapped_channel ctx) + unat (hop_increment ctx)) mod 37)\<rparr>)
         \<and> unat ch =
             (let unmapped = (unat (last_unmapped_channel ctx) + unat (hop_increment ctx)) mod 37
              in if channel_used (channel_map ctx) unmapped then unmapped
                 else used_channels (channel_map ctx) ! (unmapped mod unat (num_used_channels ctx)))
         \<and> unat ch < 37
         \<and> channel_used (channel_map ctx) (unat ch)
         \<and> (used_channels (channel_map ctx) = [0] \<longrightarrow> ch = 0)"
proof -
  define cm where "cm = channel_map ctx"
  define unmapped where
    "unmapped = (unat (last_unmapped_channel ctx) + unat (hop_increment ctx)) mod 37"
  define idx where "idx = unmapped mod unat (num_used_channels ctx)"
  have um: "unmapped < 37" by (simp add: unmapped_def)
  have nz: "num_used_channels ctx \<noteq> 0" using pos by (auto simp: unat_eq_0)
  have idx: "idx < length (used_channels cm)"
  proof -
    have "0 < length (used_channels cm)" using pos cnt unfolding cm_def by linarith
    then show ?thesis unfolding idx_def cm_def cnt by simp
  qed
  show ?thesis
  proof (cases "channel_used cm unmapped")
    case True
    have mem: "unmapped \<in> set (used_channels cm)"
      using True um by (simp add: used_channels_def)
    have only: "used_channels cm = [0] \<longrightarrow> (of_nat unmapped :: u8) = 0"
      using mem by auto
    show ?thesis
      using True um only
      by (simp add: ble_ll_calculate_next_channel_def Let_def unat_of_nat_channel
          flip: cm_def unmapped_def)
  next
    case False
    have find: "find_used_channel cm idx 0 0 = used_channels cm ! idx"
      using idx by (intro find_used_channel_nth) auto
    have props: "channel_used cm (used_channels cm ! idx) \<and> used_channels cm ! idx < 37"
      using idx by (rule used_channels_nth_used)
    have only: "used_channels cm = [0] \<longrightarrow> (of_nat (used_channels cm ! idx) :: u8) = 0"
      using idx by auto
    show ?thesis
      using False nz find props only
      by (simp add: ble_ll_calculate_next_channel_def Let_def unat_of_nat_channel
          flip: cm_def unmapped_def idx_def)
  qed
qed

text \<open>
  Claim C3. Let the context carry a 5-byte channel map whose number of used data
  channels (bits set among channels 0..36, the 37-bit set of the specification) equals
  \<open>num_used_channels\<close>, at least 1. Then \<open>ble_ll_calculate_next_channel\<close> returns
  without fault; it stores \<open>unmapped = (last_unmapped_channel + hop_increment) mod 37\<close>
  in \<open>last_unmapped_channel\<close>, whether or not it remaps; it returns \<open>unmapped\<close> when that
  channel is used and otherwise the \<open>(unmapped mod num_used_channels)\<close>-th used channel
  in increasing order; the returned channel is below 37 and its bit is set in the map;
  and when channel 0 is the only used channel the result is 0.
\<close>

theorem next_channel_csa1:
  assumes len: "length (channel_map ctx) = 5"
    and cnt: "unat (num_used_channels ctx) = length (used_channels (channel_map ctx))"
    and pos: "1 \<le> unat (num_used_channels ctx)"
  shows "\<exists>ch. ble_ll_calculate_next_channel ctx =
           Inr (ch, ctx\<lparr>last_unmapped_channel :=
                  of_nat ((unat (last_unmapped_channel ctx) + unat (hop_increment ctx)) mod 37)\<rparr>)
         \<and> unat ch =
             (let unmapped = (unat (last_unmapped_channel ctx) + unat (hop_increment ctx)) mod 37
              in if channel_used (channel_map ctx) unmapped then unmapped
                 else used_channels (channel_map ctx) ! (unmapped mod unat (num_used_channels ctx)))
         \<and> unat ch < 37
         \<and> channel_used (channel_map ctx) (unat ch)
         \<and> (used_channels (channel_map ctx) = [0] \<longrightarrow> ch = 0)"
  using len cnt pos by (rule next_channel_result)

lemma used_channels_one: "used_channels [0x01, 0, 0, 0, 0] = [0]"
  by code_simp

theorem next_channel_csa1_witness:
  "length (channel_map ctx_one_channel) = 5
   \<and> unat (num_used_channels ctx_one_channel) = length (used_channels (channel_map ctx_one_channel))
   \<and> 1 \<le> unat (num_used_channels ctx_one_channel)
   \<and> ble_ll_calculate_next_channel ctx_one_channel =
       Inr (0, ctx_one_channel\<lparr>last_unmapped_channel := 5\<rparr>)"
proof -
  have h1: "length (channel_map ctx_one_channel) = 5"
    by (simp add: ctx_one_channel_def ble_ll_init_def)
  have h2: "unat (num_used_channels ctx_one_channel) =
      length (used_channels (channel_map ctx_one_channel))"
    by (simp add: ctx_one_channel_def ble_ll_init_def used_channels_one)
  have h3: "1 \<le> unat (num_used_channels ctx_one_channel)"
    by (simp add: ctx_one_channel_def ble_ll_init_def)
  have u: "used_channels (channel_map ctx_one_channel) = [0]"
    by (simp add: ctx_one_channel_def ble_ll_init_def used_channels_one)
  from next_channel_csa1 [OF h1 h2 h3] obtain ch where
    r: "ble_ll_calculate_next_channel ctx_one_channel =
          Inr (ch, ctx_one_channel\<lparr>last_unmapped_channel :=
             of_nat ((unat (last_unmapped_channel ctx_one_channel)
                      + unat (hop_increment ctx_one_channel)) mod 37)\<rparr>)"
    and z: "used_channels (channel_map ctx_one_channel) = [0] \<longrightarrow> ch = 0"
    by blast
  have l: "(of_nat ((unat (last_unmapped_channel ctx_one_channel)
                      + unat (hop_increment ctx_one_channel)) mod 37) :: u8) = 5"
    by (simp add: ctx_one_channel_def ble_ll_init_def)
  show ?thesis using h1 h2 h3 r z u l by simp
qed

subsection \<open>CRC-24\<close>

text \<open>
  The table is not the byte table of the bit-reversed polynomial 0xDA6000 throughout:
  entry 192, for one, is not what eight shifts of the bitwise register give.
\<close>

lemma crc24_table_entry_192:
  "crc24_table ! 192 = 0xB67000 \<and> crc24_shift_lsb 8 192 = 0xB75000"
  by code_simp

text \<open>
  Claim C4 (the code departs from it). On the one-byte message 0x00 with the
  advertising initial value 0x555555, \<open>ble_ll_calculate_crc24\<close> returns 0x244EC0, while
  the bitwise CRC-24 over the polynomial 0x100065B gives 0x714E95 (bits shifted in
  least-significant first, as BLE does) or 0x54B947 (most-significant first): the
  function indexes a bit-reversed table by the top byte of the register and shifts the
  register left.
\<close>

theorem crc24_table_driven_differs:
  "ble_ll_calculate_crc24 [0x00] 0x555555 = 0x244EC0
   \<and> crc24_bitwise_lsb [0x00] 0x555555 = 0x714E95
   \<and> crc24_bitwise_msb [0x00] 0x555555 = 0x54B947"
  by code_simp

subsection \<open>Channel frequencies\<close>

text \<open>
  Claim C6 (the code departs from it). \<open>channel_freq_table\<close> is linear in the channel
  number, so it gives channel 37 the frequency 2476 MHz and channel 38 the frequency
  2478 MHz, and gives the data channels 0 and 12 the advertising frequencies 2402 MHz
  and 2426 MHz; \<open>ble_ll_start_scanning\<close> therefore programs the radio to 2476 MHz, where
  its comment says 2402 MHz. \<open>ble_ll_get_frequency\<close> has the three advertising
  frequencies right and the same two data channels on advertising frequencies.
\<close>

theorem start_scanning_frequency:
  "channel_freq_table ! 37 = 2476000000
   \<and> channel_freq_table ! 38 = 2478000000
   \<and> channel_freq_table ! 39 = 2480000000
   \<and> channel_freq_table ! 0 = 2402000000
   \<and> channel_freq_table ! 12 = 2426000000
   \<and> ble_ll_start_scanning ble_ll_init True =
       (BLE_STATUS_OK, ble_ll_init\<lparr>conn_state := CONN_STATE_SCANNING\<rparr>,
        [SetStandby, SetPktTypeBle, SetBleModParams, SetBlePktParams,
         SetBleSyncWord [0xD6, 0xBE, 0x89, 0x8E], SetBleCrcSeed 0x555555,
         SetRfFreq 2476000000, SetBleWhiteningSeed 0x65, SetRx])
   \<and> ble_ll_get_frequency 37 = 2402000000
   \<and> ble_ll_get_frequency 38 = 2426000000
   \<and> ble_ll_get_frequency 39 = 2480000000
   \<and> ble_ll_get_frequency 0 = 2402000000
   \<and> ble_ll_get_frequency 12 = 2426000000"
  by (simp add: channel_freq_table_def ble_ll_start_scanning_def ble_ll_init_def
      BLE_CRC_INIT_ADV_def ble_ll_get_frequency_def)

subsection \<open>Access addresses\<close>

lemma and_1_bit: "(w AND 1 \<noteq> 0) = bit (w :: u32) 0"
  by (simp add: and_one_eq bit_0 mod_2_eq_odd)

lemma bit0_drop: "bit (drop_bit k (w :: u32)) 0 = bit w k"
  by (simp add: bit_drop_bit_eq)

lemma and_1_cases: "(w :: u32) AND 1 = (if bit w 0 then 1 else 0)"
  by (simp add: and_one_eq bit_0 mod_2_eq_odd)

lemma and_1_eq_iff: "(drop_bit i (w :: u32) AND 1 = drop_bit j w AND 1) = (bit w i = bit w j)"
  by (simp add: and_1_cases bit0_drop)

lemma run_inv_extend:
  assumes "run_inv f k b m" "f k = b"
  shows "run_inv f (Suc k) b (Suc m)"
  unfolding run_inv_def
proof (intro conjI allI impI)
  show "Suc m \<le> Suc k" using assms by (simp add: run_inv_def)
next
  fix j assume j: "j < Suc m"
  show "f (Suc k - 1 - j) = b"
  proof (cases j)
    case 0 then show ?thesis using assms by simp
  next
    case (Suc j')
    then have "j' < m" using j by simp
    then have "f (k - 1 - j') = b" using assms by (simp add: run_inv_def)
    moreover have "j' < k" using \<open>j' < m\<close> assms by (simp add: run_inv_def)
    ultimately show ?thesis using Suc by (simp add: Suc_diff_Suc)
  qed
next
  assume "Suc m < Suc k"
  then have "m < k" by simp
  then have "f (k - 1 - m) \<noteq> b" using assms by (simp add: run_inv_def)
  moreover have "Suc k - 1 - Suc m = k - 1 - m" using \<open>m < k\<close> by simp
  ultimately show "f (Suc k - 1 - Suc m) \<noteq> b" by simp
qed

lemma run_inv_reset: "f k \<noteq> b \<Longrightarrow> run_inv f (Suc k) b 0"
  by (simp add: run_inv_def)

lemma long_run_found:
  assumes "run_inv f k b 6" "f k = b" "Suc k \<le> N"
  shows "\<not> no_long_run f N"
proof -
  have k6: "6 \<le> k" and all: "\<forall>j<6. f (k - 1 - j) = b"
    using assms by (simp_all add: run_inv_def)
  define i where "i = k - 6"
  have "i + 7 \<le> N" using k6 assms by (simp add: i_def)
  moreover have "\<forall>j<7. f (i + j) = f i"
  proof (intro allI impI)
    fix j :: nat assume "j < 7"
    have eq: "\<And>t. t < 7 \<Longrightarrow> f (i + t) = b"
    proof -
      fix t :: nat assume t: "t < 7"
      show "f (i + t) = b"
      proof (cases "t = 6")
        case True then show ?thesis using assms k6 by (simp add: i_def)
      next
        case False
        then have "5 - t < 6" using t by simp
        then have "f (k - 1 - (5 - t)) = b" using all by blast
        moreover have "k - 1 - (5 - t) = i + t" using k6 t False by (simp add: i_def)
        ultimately show ?thesis by simp
      qed
    qed
    show "f (i + j) = f i" using eq [of j] eq [of 0] \<open>j < 7\<close> by simp
  qed
  ultimately show ?thesis unfolding no_long_run_def by blast
qed

lemma no_long_run_step:
  assumes ok: "no_long_run f k" and inv: "run_inv f k b m" and fk: "f k = b" and m: "m < 6"
  shows "no_long_run f (Suc k)"
  unfolding no_long_run_def
proof (intro allI impI)
  fix i assume i: "i + 7 \<le> Suc k"
  show "\<exists>j<7. f (i + j) \<noteq> f i"
  proof (cases "i + 7 \<le> k")
    case True then show ?thesis using ok by (simp add: no_long_run_def)
  next
    case False
    then have ik: "i + 6 = k" using i by simp
    have mk: "m < k" using m ik by simp
    then have nb: "f (k - 1 - m) \<noteq> b" using inv by (simp add: run_inv_def)
    define p where "p = k - 1 - m"
    have pi: "i \<le> p" "p < i + 6" using ik m mk by (simp_all add: p_def)
    show ?thesis
    proof (cases "f i = b")
      case True
      have "p - i < 7" using pi by simp
      moreover have "i + (p - i) = p" using pi by simp
      then have "f (i + (p - i)) \<noteq> f i" using True nb unfolding p_def by simp
      ultimately show ?thesis by blast
    next
      case False
      have "f (i + 6) \<noteq> f i" using False fk ik by simp
      moreover have "(6::nat) < 7" by simp
      ultimately show ?thesis by blast
    qed
  qed
qed


lemma aa_run_loop_inv:
  "k + n = N \<Longrightarrow> run_inv (bit aa) k True ones \<Longrightarrow> run_inv (bit aa) k False zeros \<Longrightarrow>
   ones \<le> mx \<Longrightarrow> zeros \<le> mx \<Longrightarrow> mx \<le> 6 \<Longrightarrow> no_long_run (bit aa) k \<Longrightarrow>
   aa_run_loop n (drop_bit k aa) ones zeros mx = no_long_run (bit aa) N"
proof (induction n arbitrary: k ones zeros mx)
  case 0
  then show ?case by simp
next
  case (Suc n)
  have kN: "Suc k \<le> N" "Suc k + n = N" using Suc.prems(1) by simp_all
  have dd: "drop_bit 1 (drop_bit k aa) = drop_bit (Suc k) aa"
    by (simp add: drop_bit_drop_bit)
  have b0: "(drop_bit k aa AND 1 \<noteq> 0) = bit aa k"
    by (simp only: and_1_bit bit0_drop)
  show ?case
  proof (cases "bit aa k")
    case True
    show ?thesis
    proof (cases "ones = 6")
      case six: True
      have "\<not> no_long_run (bit aa) N"
        using long_run_found [of "bit aa" k True N] Suc.prems(2) True kN six by simp
      then show ?thesis using True six Suc.prems b0 by (simp add: Let_def)
    next
      case False
      then have lt: "ones < 6" using Suc.prems by simp
      define mx' where "mx' = (if ones + 1 > mx then ones + 1 else mx)"
      have mx': "ones + 1 \<le> mx'" "0 \<le> mx'" "mx' \<le> 6" using lt Suc.prems by (simp_all add: mx'_def)
      have i1: "run_inv (bit aa) (Suc k) True (ones + 1)"
        using run_inv_extend [OF Suc.prems(2)] True by simp
      have i2: "run_inv (bit aa) (Suc k) False 0"
        using run_inv_reset [of "bit aa" k False] True by simp
      have i3: "no_long_run (bit aa) (Suc k)"
        using no_long_run_step [OF Suc.prems(7) Suc.prems(2) _ lt] True by simp
      have "aa_run_loop n (drop_bit (Suc k) aa) (ones + 1) 0 mx' = no_long_run (bit aa) N"
        using Suc.IH [OF kN(2) i1 i2 mx' i3] .
      then show ?thesis using True b0 mx' dd by (auto simp: Let_def mx'_def split: if_splits)
    qed
  next
    case False
    show ?thesis
    proof (cases "zeros = 6")
      case six: True
      have "\<not> no_long_run (bit aa) N"
        using long_run_found [of "bit aa" k False N] Suc.prems(3) False kN six by simp
      then show ?thesis using False six Suc.prems b0 by (simp add: Let_def)
    next
      case nsix: False
      then have lt: "zeros < 6" using Suc.prems by simp
      define mx' where "mx' = (if zeros + 1 > mx then zeros + 1 else mx)"
      have mx': "0 \<le> mx'" "zeros + 1 \<le> mx'" "mx' \<le> 6" using lt Suc.prems by (simp_all add: mx'_def)
      have i1: "run_inv (bit aa) (Suc k) False (zeros + 1)"
        using run_inv_extend [OF Suc.prems(3)] False by simp
      have i2: "run_inv (bit aa) (Suc k) True 0"
        using run_inv_reset [of "bit aa" k True] False by simp
      have i3: "no_long_run (bit aa) (Suc k)"
        using no_long_run_step [OF Suc.prems(7) Suc.prems(3) _ lt] False by simp
      have "aa_run_loop n (drop_bit (Suc k) aa) 0 (zeros + 1) mx' = no_long_run (bit aa) N"
        using Suc.IH [OF kN(2) i2 i1 mx' i3] .
      then show ?thesis using False b0 mx' dd by (auto simp: Let_def mx'_def split: if_splits)
    qed
  qed
qed

lemma aa_run_loop_rule: "aa_run_loop 32 aa 0 0 0 = (\<not> aa_has_long_run aa)"
proof -
  have "aa_run_loop 32 (drop_bit 0 aa) 0 0 0 = no_long_run (bit aa) 32"
    by (rule aa_run_loop_inv) (simp_all add: run_inv_def no_long_run_def)
  moreover have "no_long_run (bit aa) 32 = (\<not> aa_has_long_run aa)"
    unfolding no_long_run_def aa_has_long_run_def
  proof
    assume h: "\<forall>i. i + 7 \<le> 32 \<longrightarrow> (\<exists>j<7. bit aa (i + j) \<noteq> bit aa i)"
    show "\<not> (\<exists>i\<in>{0..<26}. \<forall>j\<in>{0..<7}. bit aa (i + j) = bit aa i)"
    proof
      assume "\<exists>i\<in>{0..<26}. \<forall>j\<in>{0..<7}. bit aa (i + j) = bit aa i"
      then obtain i where i: "i < 26" "\<forall>j<7. bit aa (i + j) = bit aa i" by auto
      then have "i + 7 \<le> 32" by simp
      with h i show False by blast
    qed
  next
    assume h: "\<not> (\<exists>i\<in>{0..<26}. \<forall>j\<in>{0..<7}. bit aa (i + j) = bit aa i)"
    show "\<forall>i. i + 7 \<le> 32 \<longrightarrow> (\<exists>j<7. bit aa (i + j) \<noteq> bit aa i)"
    proof (intro allI impI)
      fix i :: nat assume "i + 7 \<le> 32"
      then have "i \<in> {0..<26}" by simp
      with h have "\<not> (\<forall>j\<in>{0..<7}. bit aa (i + j) = bit aa i)" by blast
      then show "\<exists>j<7. bit aa (i + j) \<noteq> bit aa i" by auto
    qed
  qed
  ultimately show ?thesis by simp
qed

lemma aa_transitions_loop_count:
  "aa_transitions_loop n (drop_bit (Suc k) aa) (drop_bit k aa AND 1) tr =
     tr + aa_transitions aa k (k + n)"
proof (induction n arbitrary: k tr)
  case 0
  then show ?case by (simp add: aa_transitions_def)
next
  case (Suc n)
  have dd: "drop_bit 1 (drop_bit (Suc k) aa) = drop_bit (Suc (Suc k)) aa"
    by (simp add: drop_bit_drop_bit)
  have ne: "(drop_bit (Suc k) aa AND 1 \<noteq> drop_bit k aa AND 1) = (bit aa k \<noteq> bit aa (Suc k))"
    using and_1_eq_iff [of "Suc k" aa k] by auto
  have step: "aa_transitions aa k (k + Suc n) =
      (if bit aa k \<noteq> bit aa (Suc k) then 1 else 0) + aa_transitions aa (Suc k) (Suc k + n)"
  proof -
    have "[k..<k + Suc n] = k # [Suc k..<Suc k + n]"
      by (simp add: upt_conv_Cons del: upt_Suc)
    then show ?thesis unfolding aa_transitions_def by simp
  qed
  have "aa_transitions_loop (Suc n) (drop_bit (Suc k) aa) (drop_bit k aa AND 1) tr =
      aa_transitions_loop n (drop_bit (Suc (Suc k)) aa) (drop_bit (Suc k) aa AND 1)
        (if bit aa k \<noteq> bit aa (Suc k) then tr + 1 else tr)"
    unfolding aa_transitions_loop.simps Let_def dd ne ..
  also have "\<dots> = (if bit aa k \<noteq> bit aa (Suc k) then tr + 1 else tr)
      + aa_transitions aa (Suc k) (Suc k + n)"
    by (rule Suc.IH)
  finally show ?case unfolding step by (simp split: if_splits)
qed

lemma aa_transitions_loop_rule:
  "aa_transitions_loop 31 (drop_bit 1 aa) (aa AND 1) 0 = aa_transitions aa 0 31"
  using aa_transitions_loop_count [of 31 0 aa 0] by simp

lemma aa_last_six_rule: "aa_last_six_transitions aa = aa_transitions aa 26 31"
proof -
  have l1: "[27..<32] = [27, 28, 29, 30, 31::nat]" by (simp add: upt_rec)
  have l2: "[26..<31] = [26, 27, 28, 29, 30::nat]" by (simp add: upt_rec)
  have s: "Suc 26 = 27" "Suc 27 = 28" "Suc 28 = 29" "Suc 29 = 30" "Suc 30 = 31" by simp_all
  have ne: "\<And>i j. (drop_bit i aa AND 1 \<noteq> drop_bit j aa AND 1) = (bit aa j \<noteq> bit aa i)"
    using and_1_eq_iff [of _ aa] by auto
  show ?thesis
    unfolding aa_last_six_transitions_def aa_transitions_def l1 l2
    by (simp add: Let_def ne s del: drop_bit_Suc)
qed

lemma generate_returns_valid:
  "ble_ll_generate_access_address s = Some r \<Longrightarrow> ll_validate_access_address (fst r)"
proof -
  assume a: "ble_ll_generate_access_address s = Some r"
  show ?thesis
  proof (rule ble_ll_generate_access_address.raw_induct
      [where P = "\<lambda>s r. ll_validate_access_address (fst r)", OF _ a])
    fix gen :: "u8 \<Rightarrow> (u32 \<times> u8) option" and s r
    assume IH: "\<And>s r. gen s = Some r \<Longrightarrow> ll_validate_access_address (fst r)"
      and b: "(let r1 = ble_ll_get_random s;
          r2 = ble_ll_get_random r1;
          r3 = ble_ll_get_random r2;
          r4 = ble_ll_get_random r3;
          aa = push_bit 24 (ucast r1) OR push_bit 16 (ucast r2) OR push_bit 8 (ucast r3)
                 OR ucast r4
      in if ll_validate_access_address aa then Some (aa, r4)
         else gen r4) = Some r"
    show "ll_validate_access_address (fst r)"
      using IH b by (auto simp: Let_def split: if_splits)
  qed
qed

text \<open>
  Claim C5. Whatever \<open>ble_ll_generate_access_address\<close> returns passes
  \<open>ll_validate_access_address\<close>; the validator accepts an address exactly when the four
  rules hold (not the advertising address 0x8E89BED6, no run of seven or more identical
  consecutive bits, at least three transitions over the 32 bits, at least two
  transitions among the six most significant bits); and it rejects 0x8E89BED6 and
  0xFFFFFFFF. From the power-on register state 0x53 the generator returns 0xA9D4EA75
  at the first draw.
\<close>

theorem access_address_valid:
  "(ble_ll_generate_access_address s = Some (aa, s') \<longrightarrow> ll_validate_access_address aa)
   \<and> (ll_validate_access_address a \<longleftrightarrow> aa_valid_rules a)
   \<and> \<not> ll_validate_access_address 0x8E89BED6
   \<and> \<not> ll_validate_access_address 0xFFFFFFFF"
proof (intro conjI)
  show "ble_ll_generate_access_address s = Some (aa, s') \<longrightarrow> ll_validate_access_address aa"
    using generate_returns_valid [of s "(aa, s')"] by simp
next
  show "ll_validate_access_address a \<longleftrightarrow> aa_valid_rules a"
    unfolding ll_validate_access_address_def aa_valid_rules_def BLE_ACCESS_ADDRESS_ADV_def
      aa_run_loop_rule aa_transitions_loop_rule aa_last_six_rule
    by (simp add: not_less)
next
  show "\<not> ll_validate_access_address 0x8E89BED6"
    by (simp add: ll_validate_access_address_def BLE_ACCESS_ADDRESS_ADV_def)
next
  show "\<not> ll_validate_access_address 0xFFFFFFFF"
    by code_simp
qed

theorem access_address_valid_witness:
  "ble_ll_generate_access_address 0x53 = Some (0xA9D4EA75, 0x75)
   \<and> ll_validate_access_address 0xA9D4EA75
   \<and> aa_valid_rules 0xA9D4EA75"
proof -
  have g: "ble_ll_generate_access_address 0x53 = Some (0xA9D4EA75, 0x75)"
    by code_simp
  from access_address_valid [of "0x53" "0xA9D4EA75" "0x75" "0xA9D4EA75"] g
  show ?thesis by blast
qed

subsection \<open>The connection event: shape of the handler\<close>

lemma ll_event_tx_unfold:
  "ll_event_tx ctx p =
     (if (tx_pending ctx \<or> event_counter ctx = 0) \<and> unat (tx_len_byte ctx) + 2 > 255
      then Inl (TxBufferOverread (unat (tx_len_byte ctx) + 2))
      else Inr (ctx\<lparr>tx_buffer := tx_stamped ctx\<rparr>, tx_ops ctx p))"
  by (simp add: ll_event_tx_def tx_len_byte_def tx_hdr_byte_def tx_stamped_def tx_pdu_def
      tx_ops_def Let_def)

lemma tx_len_ok: "tx_pending ctx \<longrightarrow> unat (tx_buffer ctx ! 1) + 2 \<le> 255 \<Longrightarrow> \<not> unat (tx_len_byte ctx) + 2 > 255"
  by (auto simp: tx_len_byte_def)


lemma tx_stamped_drop: "drop 2 (tx_stamped ctx) = drop 2 (tx_buffer ctx)"
  by (simp add: tx_stamped_def)



lemma tx_parts_after_channel [simp]:
  "tx_len_byte (ctx\<lparr>last_unmapped_channel := u\<rparr>) = tx_len_byte ctx"
  "tx_stamped (ctx\<lparr>last_unmapped_channel := u\<rparr>) = tx_stamped ctx"
  "tx_ops (ctx\<lparr>last_unmapped_channel := u\<rparr>) p = tx_ops ctx p"
  by (simp_all add: tx_len_byte_def tx_hdr_byte_def tx_stamped_def tx_pdu_def tx_ops_def)

lemma handle_event_unfold:
  assumes wf: "ll_wf ctx"
  shows "\<exists>ch. unat ch < 37 \<and> ll_handle_connection_event cbs rin ctx =
     (if rx_irq_status rin AND SX128X_IRQ_RX_DONE \<noteq> 0 then
        (case ll_process_received (on_data_received cbs) (after_tx ctx) (rx_data rin) of
           RxTerminated c reason \<Rightarrow>
             Inr (c, event_ops ctx ch (tx_done_poll rin),
                  if on_disconnected cbs then Some reason else None)
         | RxProcessed c \<Rightarrow> Inr (ll_event_finish cbs c (event_ops ctx ch (tx_done_poll rin))))
      else Inr (ll_event_finish cbs
             ((after_tx ctx)\<lparr>consecutive_crc_errors := consecutive_crc_errors ctx + 1,
                             total_crc_errors := total_crc_errors ctx + 1\<rparr>)
             (event_ops ctx ch (tx_done_poll rin))))"
proof -
  have h: "length (channel_map ctx) = 5"
    "unat (num_used_channels ctx) = length (used_channels (channel_map ctx))"
    "1 \<le> unat (num_used_channels ctx)"
    using wf by (simp_all add: ll_wf_def)
  from next_channel_result [OF h] obtain ch where
    ch: "ble_ll_calculate_next_channel ctx =
           Inr (ch, ctx\<lparr>last_unmapped_channel :=
                  of_nat ((unat (last_unmapped_channel ctx) + unat (hop_increment ctx)) mod 37)\<rparr>)"
    and lt: "unat ch < 37"
    by blast
  have len: "\<not> unat (tx_len_byte ctx) + 2 > 255"
    using wf by (intro tx_len_ok) (simp add: ll_wf_def)
  have "ll_handle_connection_event cbs rin ctx =
     (if rx_irq_status rin AND SX128X_IRQ_RX_DONE \<noteq> 0 then
        (case ll_process_received (on_data_received cbs) (after_tx ctx) (rx_data rin) of
           RxTerminated c reason \<Rightarrow>
             Inr (c, event_ops ctx ch (tx_done_poll rin),
                  if on_disconnected cbs then Some reason else None)
         | RxProcessed c \<Rightarrow> Inr (ll_event_finish cbs c (event_ops ctx ch (tx_done_poll rin))))
      else Inr (ll_event_finish cbs
             ((after_tx ctx)\<lparr>consecutive_crc_errors := consecutive_crc_errors ctx + 1,
                             total_crc_errors := total_crc_errors ctx + 1\<rparr>)
             (event_ops ctx ch (tx_done_poll rin))))"
    using len
    by (simp add: ll_handle_connection_event_def ch ll_event_tx_unfold after_tx_def
        event_ops_def Let_def cong: rx_result.case_cong)
  with lt show ?thesis by blast
qed

lemma finish_fields:
  "ll_event_finish cbs c ops = (c', ops', d) \<Longrightarrow>
     ops' = ops
     \<and> tx_seq_num c' = tx_seq_num c
     \<and> next_expected_seq_num c' = next_expected_seq_num c
     \<and> tx_pending c' = tx_pending c
     \<and> tx_buffer c' = tx_buffer c
     \<and> consecutive_crc_errors c' = consecutive_crc_errors c
     \<and> supervision_timeout c' = supervision_timeout c
     \<and> event_counter c' = event_counter c + 1
     \<and> anchor_point c' = anchor_point c + ucast (conn_interval c)
     \<and> conn_state c' = (if consecutive_crc_errors c > 6 then CONN_STATE_IDLE else conn_state c)
     \<and> d = (if consecutive_crc_errors c > 6 \<and> on_disconnected cbs then Some 0x08 else None)"
  by (auto simp: ll_event_finish_def Let_def split: if_splits)

lemma after_tx_fields [simp]:
  "tx_seq_num (after_tx ctx) = tx_seq_num ctx"
  "next_expected_seq_num (after_tx ctx) = next_expected_seq_num ctx"
  "tx_pending (after_tx ctx) = tx_pending ctx"
  "tx_buffer (after_tx ctx) = tx_stamped ctx"
  "rx_buffer (after_tx ctx) = rx_buffer ctx"
  "consecutive_crc_errors (after_tx ctx) = consecutive_crc_errors ctx"
  "conn_state (after_tx ctx) = conn_state ctx"
  "event_counter (after_tx ctx) = event_counter ctx"
  "anchor_point (after_tx ctx) = anchor_point ctx"
  "conn_interval (after_tx ctx) = conn_interval ctx"
  "supervision_timeout (after_tx ctx) = supervision_timeout ctx"
  "channel_map (after_tx ctx) = channel_map ctx"
  "num_used_channels (after_tx ctx) = num_used_channels ctx"
  by (simp_all add: after_tx_def)


lemma rx_ack_fields:
  "next_expected_seq_num (ll_rx_ack c) = next_expected_seq_num c"
  "tx_seq_num (ll_rx_ack c) =
     (if pdu_nesn (rx_buffer c ! 0) \<noteq> tx_seq_num c then tx_seq_num c XOR 1 else tx_seq_num c)"
  "tx_pending (ll_rx_ack c) = (pdu_nesn (rx_buffer c ! 0) = tx_seq_num c \<and> tx_pending c)"
  "tx_buffer (ll_rx_ack c) = tx_buffer c"
  "rx_buffer (ll_rx_ack c) = rx_buffer c"
  "consecutive_crc_errors (ll_rx_ack c) = consecutive_crc_errors c"
  "conn_state (ll_rx_ack c) = conn_state c"
  by (simp_all add: ll_rx_ack_def Let_def)









lemma hdr_nesn: "pdu_nesn (pdu_set_md (pdu_set_sn (pdu_set_nesn b v) w) m) = v AND 1"
  unfolding pdu_nesn_def pdu_set_md_def pdu_set_sn_def pdu_set_nesn_def
  by (rule bit_eqI) (auto simp: bit_simps)

lemma hdr_sn: "pdu_sn (pdu_set_md (pdu_set_sn (pdu_set_nesn b v) w) m) = w AND 1"
  unfolding pdu_sn_def pdu_set_md_def pdu_set_sn_def pdu_set_nesn_def
  by (rule bit_eqI) (auto simp: bit_simps)

lemma bit_pos_u8: "pos < 8 \<Longrightarrow> pos \<in> {0, 1, 2, 3, 4, 5, 6, 7::nat}"
  by auto

lemma hdr_llid: "pdu_llid (pdu_set_md (pdu_set_sn (pdu_set_nesn b v) w) m) = pdu_llid b"
  unfolding pdu_llid_def pdu_set_md_def pdu_set_sn_def pdu_set_nesn_def
proof (rule bit_eqI)
  fix n assume "possible_bit TYPE(u8) n"
  then have "n < 8" by (simp add: possible_bit_def)
  then consider "n = 0" | "n = 1" | "n = 2" | "n = 3" | "n = 4" | "n = 5" | "n = 6" | "n = 7"
    using bit_pos_u8 [of n] by auto
  then show "bit ((((((b AND 0xFB) OR push_bit 2 (v AND 1)) AND 0xF7) OR push_bit 3 (w AND 1)) AND 0xEF
                 OR push_bit 4 (m AND 1)) AND 0x03) n = bit (b AND 0x03) n"
    by cases (simp_all add: bit_simps)
qed

lemma hdr_llid_set: "pdu_llid (pdu_set_llid b 1) = 1"
  unfolding pdu_llid_def pdu_set_llid_def
proof (rule bit_eqI)
  fix n assume "possible_bit TYPE(u8) n"
  then have "n < 8" by (simp add: possible_bit_def)
  then consider "n = 0" | "n = 1" | "n = 2" | "n = 3" | "n = 4" | "n = 5" | "n = 6" | "n = 7"
    using bit_pos_u8 [of n] by auto
  then show "bit (((b AND 0xFC) OR (1 AND 0x03)) AND 0x03) n = bit (1::u8) n"
    by cases (simp_all add: bit_simps)
qed

lemma event_ops_written:
  "pdus_written (event_ops ctx ch p) =
     (if tx_pending ctx \<or> event_counter ctx = 0 then [tx_pdu ctx] else [])"
  "tx_starts (event_ops ctx ch p) = (if tx_pending ctx \<or> event_counter ctx = 0 then 1 else 0)"
  by (simp_all add: event_ops_def tx_ops_def pdus_written_def tx_starts_def List.map_filter_simps)

lemma tx_pdu_hdr:
  assumes "length (tx_buffer ctx) = 255" "tx_pending ctx \<or> event_counter ctx = 0"
  shows "tx_pdu ctx ! 0 = tx_hdr_byte ctx"
  using assms by (simp add: tx_pdu_def tx_stamped_def)

lemma tx_pdu_pending:
  assumes len: "length (tx_buffer ctx) = 255" and p: "tx_pending ctx"
    and fit: "unat (tx_buffer ctx ! 1) + 2 \<le> 255"
  shows "length (tx_pdu ctx) = unat (tx_buffer ctx ! 1) + 2"
    and "drop 1 (tx_pdu ctx) = take (unat (tx_buffer ctx ! 1) + 1) (drop 1 (tx_buffer ctx))"
proof -
  have "((tx_buffer ctx)[0 := tx_hdr_byte ctx]) ! 1 = tx_buffer ctx ! 1" by simp
  then have "(tx_buffer ctx)[0 := tx_hdr_byte ctx, 1 := tx_buffer ctx ! 1] =
      (tx_buffer ctx)[0 := tx_hdr_byte ctx]"
    by (metis list_update_id)
  then have st: "tx_stamped ctx = (tx_buffer ctx)[0 := tx_hdr_byte ctx]"
    using p by (simp add: tx_stamped_def tx_len_byte_def)
  show "length (tx_pdu ctx) = unat (tx_buffer ctx ! 1) + 2"
    using len p fit by (simp add: tx_pdu_def st tx_len_byte_def)
  show "drop 1 (tx_pdu ctx) = take (unat (tx_buffer ctx ! 1) + 1) (drop 1 (tx_buffer ctx))"
    using p by (simp add: tx_pdu_def st tx_len_byte_def drop_take)
qed

lemma tx_pdu_empty:
  assumes len: "length (tx_buffer ctx) = 255" and p: "\<not> tx_pending ctx" and e: "event_counter ctx = 0"
  shows "tx_pdu ctx = [tx_hdr_byte ctx, 0]"
proof -
  obtain a b rest where l: "tx_buffer ctx = a # b # rest"
    using len by (cases "tx_buffer ctx"; cases "tl (tx_buffer ctx)") auto
  show ?thesis using p e by (simp add: tx_pdu_def tx_stamped_def tx_len_byte_def l)
qed

lemma process_received_empty:
  assumes "rx_after_read c data ! 1 = 0"
  shows "\<exists>c'. ll_process_received cb c data = RxProcessed c'
     \<and> tx_seq_num c' =
         (if pdu_nesn (rx_after_read c data ! 0) \<noteq> tx_seq_num c
          then tx_seq_num c XOR 1 else tx_seq_num c)"
  using assms unfolding ll_process_received_def Let_def
  by (simp add: rx_ack_fields rx_after_read_def)

lemma rx_view_after_tx [simp]:
  "rx_after_read (after_tx ctx) data = rx_after_read ctx data"
  "rx_new_control (after_tx ctx) rx opc = rx_new_control ctx rx opc"
  by (simp_all add: rx_after_read_def rx_new_control_def)

lemma event_result_shape:
  assumes "r = (if b then
        (case pr of
           RxTerminated c reason \<Rightarrow> Inr (c, ops, dd reason)
         | RxProcessed c \<Rightarrow> Inr (ll_event_finish cbs c ops))
      else Inr (ll_event_finish cbs x ops))"
  shows "\<exists>c d. r = Inr (c, ops, d)"
proof -
  have f: "\<exists>c' d. ll_event_finish cbs c ops = (c', ops, d)" for c
    by (simp add: ll_event_finish_def Let_def)
  show ?thesis
  proof (cases b)
    case False
    then show ?thesis using assms f [of x] by auto
  next
    case True
    then show ?thesis using assms f by (cases pr) auto
  qed
qed

lemma used_channels_all: "used_channels [0xFF, 0xFF, 0xFF, 0xFF, 0x1F] = [0..<37]"
  by code_simp

lemma ll_wf_connected: "ll_wf ctx_connected"
  by (simp add: ll_wf_def ctx_connected_def ble_ll_init_def used_channels_all)

lemma ll_wf_pending: "ll_wf ctx_pending"
  by (simp add: ll_wf_def ctx_pending_def ctx_connected_def ble_ll_init_def used_channels_all)

text \<open>
  The handler tests the RX_DONE bit of the status word and no other, so it takes a
  status word with RX_DONE and CRC_ERROR both set like one with RX_DONE alone. This
  is at odds with \<open>consecutive_crc_errors\<close>, declared as the count of consecutive CRC
  errors; the statement on sequence numbers below is made for a received PDU without
  CRC_ERROR and leaves the other case open.
\<close>

lemma rx_done_bit_only:
  "(x OR SX128X_IRQ_CRC_ERROR) AND SX128X_IRQ_RX_DONE = x AND SX128X_IRQ_RX_DONE"
  by (simp add: SX128X_IRQ_CRC_ERROR_def SX128X_IRQ_RX_DONE_def bit.conj_disj_distrib2)

lemma crc_error_flag_not_read:
  "ll_handle_connection_event cbs
     (rin\<lparr>rx_irq_status := rx_irq_status rin OR SX128X_IRQ_CRC_ERROR\<rparr>) ctx
   = ll_handle_connection_event cbs rin ctx"
  by (simp add: ll_handle_connection_event_def rx_done_bit_only Let_def
      split: sum.split prod.split)

subsection \<open>Sequence numbers and acknowledgement\<close>




subsection \<open>What an event transmits\<close>

text \<open>
  Claim C2, as amended. On a well-formed context the handler returns without fault. It
  transmits in an event exactly when \<open>tx_pending\<close> is set or \<open>event_counter\<close> is 0, and
  then exactly one PDU, whose header carries NESN = \<open>next_expected_seq_num\<close> and
  SN = \<open>tx_seq_num\<close> (their lowest bits). With \<open>tx_pending\<close> it is the prepared buffer:
  \<open>length + 2\<close> bytes, the LLID and everything after the first byte as prepared.
  Without \<open>tx_pending\<close>, at event 0, it is the empty PDU (LLID 01, length 0), and an
  empty reply whose NESN differs from \<open>tx_seq_num\<close> acknowledges it: \<open>tx_seq_num\<close>
  toggles. Without \<open>tx_pending\<close> in a later event nothing is written to the radio and
  TX is not started.
\<close>

theorem connection_event_transmission:
  assumes wf: "ll_wf ctx"
  shows "\<exists>c ops d. ll_handle_connection_event cbs rin ctx = Inr (c, ops, d)
     \<and> (tx_pending ctx \<or> event_counter ctx = 0 \<longrightarrow>
           pdus_written ops = [tx_pdu ctx] \<and> tx_starts ops = 1
           \<and> pdu_nesn (tx_pdu ctx ! 0) = next_expected_seq_num ctx AND 1
           \<and> pdu_sn (tx_pdu ctx ! 0) = tx_seq_num ctx AND 1)
     \<and> (tx_pending ctx \<longrightarrow>
           length (tx_pdu ctx) = unat (tx_buffer ctx ! 1) + 2
           \<and> pdu_llid (tx_pdu ctx ! 0) = pdu_llid (tx_buffer ctx ! 0)
           \<and> drop 1 (tx_pdu ctx) = take (unat (tx_buffer ctx ! 1) + 1) (drop 1 (tx_buffer ctx)))
     \<and> (\<not> tx_pending ctx \<and> event_counter ctx = 0 \<longrightarrow>
           length (tx_pdu ctx) = 2 \<and> pdu_llid (tx_pdu ctx ! 0) = 0x01 \<and> tx_pdu ctx ! 1 = 0
           \<and> (rx_irq_status rin AND SX128X_IRQ_RX_DONE \<noteq> 0
                \<and> rx_after_read ctx (rx_data rin) ! 1 = 0
                \<and> pdu_nesn (rx_after_read ctx (rx_data rin) ! 0) \<noteq> tx_seq_num ctx
                \<longrightarrow> tx_seq_num c = tx_seq_num ctx XOR 1))
     \<and> (\<not> tx_pending ctx \<and> event_counter ctx \<noteq> 0 \<longrightarrow>
           pdus_written ops = [] \<and> tx_starts ops = 0)"
proof -
  have len: "length (tx_buffer ctx) = 255"
    and fit: "tx_pending ctx \<longrightarrow> unat (tx_buffer ctx ! 1) + 2 \<le> 255"
    using wf by (simp_all add: ll_wf_def)
  from handle_event_unfold [OF wf, of cbs rin] obtain ch where
    h: "ll_handle_connection_event cbs rin ctx =
     (if rx_irq_status rin AND SX128X_IRQ_RX_DONE \<noteq> 0 then
        (case ll_process_received (on_data_received cbs) (after_tx ctx) (rx_data rin) of
           RxTerminated c reason \<Rightarrow>
             Inr (c, event_ops ctx ch (tx_done_poll rin),
                  if on_disconnected cbs then Some reason else None)
         | RxProcessed c \<Rightarrow> Inr (ll_event_finish cbs c (event_ops ctx ch (tx_done_poll rin))))
      else Inr (ll_event_finish cbs
             ((after_tx ctx)\<lparr>consecutive_crc_errors := consecutive_crc_errors ctx + 1,
                             total_crc_errors := total_crc_errors ctx + 1\<rparr>)
             (event_ops ctx ch (tx_done_poll rin))))"
    by blast
  define ops where "ops = event_ops ctx ch (tx_done_poll rin)"
  define acked where "acked \<longleftrightarrow> rx_irq_status rin AND SX128X_IRQ_RX_DONE \<noteq> 0
      \<and> rx_after_read ctx (rx_data rin) ! 1 = 0
      \<and> pdu_nesn (rx_after_read ctx (rx_data rin) ! 0) \<noteq> tx_seq_num ctx"
  have res: "\<exists>c d. ll_handle_connection_event cbs rin ctx = Inr (c, ops, d)
      \<and> (acked \<longrightarrow> tx_seq_num c = tx_seq_num ctx XOR 1)"
  proof (cases acked)
    case False
    from event_result_shape [OF h] show ?thesis
      using False unfolding ops_def by blast
  next
    case True
    note pe = process_received_empty [of "after_tx ctx" "rx_data rin" "on_data_received cbs",
        unfolded rx_view_after_tx after_tx_fields]
    from pe True obtain c' where
      p: "ll_process_received (on_data_received cbs) (after_tx ctx) (rx_data rin) = RxProcessed c'"
      and c': "tx_seq_num c' = tx_seq_num ctx XOR 1"
      unfolding acked_def by auto
    obtain c ops' d where f: "ll_event_finish cbs c' ops = (c, ops', d)"
      by (metis prod_cases3)
    from finish_fields [OF f] have k: "ops' = ops" "tx_seq_num c = tx_seq_num c'" by simp_all
    have "ll_handle_connection_event cbs rin ctx = Inr (c, ops, d)"
      using h True p f k unfolding acked_def by (simp add: ops_def)
    then show ?thesis using c' k by auto
  qed
  then obtain c d where r: "ll_handle_connection_event cbs rin ctx = Inr (c, ops, d)"
    and a: "acked \<longrightarrow> tx_seq_num c = tx_seq_num ctx XOR 1"
    by blast
  have w: "pdus_written ops = (if tx_pending ctx \<or> event_counter ctx = 0 then [tx_pdu ctx] else [])"
    "tx_starts ops = (if tx_pending ctx \<or> event_counter ctx = 0 then 1 else 0)"
    unfolding ops_def by (rule event_ops_written)+
  have hd: "tx_pending ctx \<or> event_counter ctx = 0 \<longrightarrow>
      pdu_nesn (tx_pdu ctx ! 0) = next_expected_seq_num ctx AND 1
      \<and> pdu_sn (tx_pdu ctx ! 0) = tx_seq_num ctx AND 1"
    using tx_pdu_hdr [OF len] by (auto simp: tx_hdr_byte_def hdr_nesn hdr_sn)
  have pend: "tx_pending ctx \<longrightarrow>
      length (tx_pdu ctx) = unat (tx_buffer ctx ! 1) + 2
      \<and> pdu_llid (tx_pdu ctx ! 0) = pdu_llid (tx_buffer ctx ! 0)
      \<and> drop 1 (tx_pdu ctx) = take (unat (tx_buffer ctx ! 1) + 1) (drop 1 (tx_buffer ctx))"
    using tx_pdu_pending [OF len] fit tx_pdu_hdr [OF len]
    by (auto simp: tx_hdr_byte_def hdr_llid)
  have emp: "\<not> tx_pending ctx \<and> event_counter ctx = 0 \<longrightarrow>
      length (tx_pdu ctx) = 2 \<and> pdu_llid (tx_pdu ctx ! 0) = 0x01 \<and> tx_pdu ctx ! 1 = 0"
    using tx_pdu_empty [OF len] by (auto simp: tx_hdr_byte_def hdr_llid hdr_llid_set)
  show ?thesis
    using r a w hd pend emp unfolding acked_def by (intro exI [of _ c] exI [of _ ops] exI [of _ d]) auto
qed

text \<open>
  The theorem at the first event of \<open>ctx_connected\<close>: the empty PDU \<open>[0x01, 0x00]\<close> is
  sent once and acknowledged by the reply.
\<close>

theorem connection_event_transmission_witness:
  "ll_wf ctx_connected
   \<and> (\<exists>c ops d. ll_handle_connection_event cbs_none empty_ack_reply ctx_connected = Inr (c, ops, d)
         \<and> pdus_written ops = [[0x01, 0x00]] \<and> tx_starts ops = 1 \<and> tx_seq_num c = 1)"
proof -
  have f: "\<not> tx_pending ctx_connected" "event_counter ctx_connected = 0"
    "rx_irq_status empty_ack_reply AND SX128X_IRQ_RX_DONE \<noteq> 0"
    "tx_seq_num ctx_connected XOR 1 = 1"
    by (simp_all add: ctx_connected_def ble_ll_init_def empty_ack_reply_def SX128X_IRQ_RX_DONE_def)
  have rx: "rx_after_read ctx_connected (rx_data empty_ack_reply) ! 1 = 0"
    "pdu_nesn (rx_after_read ctx_connected (rx_data empty_ack_reply) ! 0) \<noteq> tx_seq_num ctx_connected"
    by (simp_all add: rx_after_read_def empty_ack_reply_def pdu_nesn_def ctx_connected_def
        ble_ll_init_def)
  have pdu: "tx_pdu ctx_connected = [0x01, 0x00]"
    by code_simp
  from connection_event_transmission [OF ll_wf_connected, of cbs_none empty_ack_reply]
  show ?thesis using ll_wf_connected f rx pdu by auto
qed

text \<open>
  The specification's wording of this property fails: in the second event (\<open>event_counter = 1\<close>) with nothing
  pending, the guard \<open>tx_pending || event_counter == 0\<close> skips the TX block; the trace
  holds no buffer write and no TX start.
\<close>

theorem connection_event_transmission_counterexample:
  "\<not> tx_pending (ctx_connected\<lparr>event_counter := 1\<rparr>)
   \<and> ll_handle_connection_event cbs_none silent_event (ctx_connected\<lparr>event_counter := 1\<rparr>) =
       Inr (ctx_connected\<lparr>last_unmapped_channel := 7, event_counter := 2, anchor_point := 50000,
              consecutive_crc_errors := 1, total_crc_errors := 1\<rparr>,
            [SetRfFreq 2416000000, SetBleWhiteningSeed 0x47, DelayUs 150, SetRxWithTimeout 2],
            None)"
  by code_simp

subsection \<open>Connection loss\<close>









subsection \<open>Queueing a data PDU\<close>

text \<open>
  Payloads of up to 249 bytes fit: header, L2CAP header and payload stay inside the
  255-byte \<open>tx_buffer\<close>.
\<close>

lemma send_data_fits:
  assumes "0 < unat len" "unat len \<le> 249" "conn_state ctx = CONN_STATE_CONNECTED"
    "\<not> tx_pending ctx" "unat len \<le> length d" "length (tx_buffer ctx) = 255"
  shows "\<exists>c. ble_ll_send_data ctx (Some d) len = Inr (BLE_STATUS_OK, c)
           \<and> length (tx_buffer c) = 255
           \<and> take (unat len) (drop 6 (tx_buffer c)) = take (unat len) d
           \<and> tx_length c = len + 6 \<and> tx_pending c"
proof -
  have n0: "len \<noteq> 0" using assms(1) by auto
  have le: "\<not> len > 251" using assms(2) by (simp add: word_less_nat_alt)
  show ?thesis
    using assms n0 le by (simp add: ble_ll_send_data_def)
qed

text \<open>
  Claim C8 (the code departs from it). \<open>ble_ll_send_data\<close> accepts lengths up to 251,
  but \<open>tx_buffer\<close> has 255 bytes and the payload starts at byte 6: on a connected
  context with nothing pending, a payload of 251 bytes needs 257 bytes and one of 250
  bytes needs 256, so the copy runs past the end of the array.
\<close>

theorem send_data_max_length_overflows:
  "length (tx_buffer ctx_connected) = 255
   \<and> conn_state ctx_connected = CONN_STATE_CONNECTED
   \<and> tx_pending ctx_connected = False
   \<and> ble_ll_send_data ctx_connected (Some (replicate 251 0xAA)) 251 = Inl (TxBufferOverflow 257)
   \<and> ble_ll_send_data ctx_connected (Some (replicate 250 0xAA)) 250 = Inl (TxBufferOverflow 256)"
  by (simp add: ble_ll_send_data_def ctx_connected_def ble_ll_init_def)

subsection \<open>MTU exchange\<close>

text \<open>
  What the MTU response case stores, for every pair of MTU bytes: the reported value,
  limited to 247 from above.
\<close>

lemma mtu_response_stored:
  "ble_gatt_handle_rx_data cb ctx (Some [ATT_EXCHANGE_MTU_RSP, lo, hi]) 3 =
     Inr (ctx\<lparr>mtu := (if le16 [ATT_EXCHANGE_MTU_RSP, lo, hi] 1 > 247 then 247
                      else le16 [ATT_EXCHANGE_MTU_RSP, lo, hi] 1),
             response_received := True\<rparr>)"
  by (simp add: ble_gatt_handle_rx_data_def ATT_EXCHANGE_MTU_RSP_def ATT_ERROR_RSP_def
      ATT_MTU_MAX_def)

lemma mtu_response_upper_bound:
  "ble_gatt_handle_rx_data cb ctx (Some [ATT_EXCHANGE_MTU_RSP, lo, hi]) 3 = Inr c \<Longrightarrow> mtu c \<le> 247"
  unfolding mtu_response_stored by (auto simp: not_less)

text \<open>
  Claim C9 (the code departs from it). There is no lower limit: an
  ATT_EXCHANGE_MTU_RSP reporting a server MTU of 5 leaves \<open>mtu = 5\<close>, below 23, and one
  reporting 0 leaves \<open>mtu = 0\<close>.
\<close>

theorem mtu_response_below_minimum:
  "ble_gatt_handle_rx_data None gatt_idle (Some [0x03, 0x05, 0x00]) 3 =
     Inr (gatt_idle\<lparr>mtu := 5, response_received := True\<rparr>)
   \<and> mtu (gatt_idle\<lparr>mtu := 5, response_received := True\<rparr>) < 23
   \<and> ble_gatt_handle_rx_data None gatt_idle (Some [0x03, 0x00, 0x00]) 3 =
     Inr (gatt_idle\<lparr>mtu := 0, response_received := True\<rparr>)"
  by (simp add: ble_gatt_handle_rx_data_def ATT_EXCHANGE_MTU_RSP_def ATT_ERROR_RSP_def
      ATT_MTU_MAX_def le16_def)

subsection \<open>Submitting ATT requests\<close>

lemma gatt_submit_status:
  assumes "pdu_len \<noteq> 0" "\<not> pdu_len > 251" "6 + unat pdu_len \<le> 255" "unat pdu_len \<le> length pdu"
    and "conn_state (ll_ctx ctx) = CONN_STATE_CONNECTED"
  shows "\<exists>s c. gatt_submit ctx req pdu pdu_len = Inr (s, c)
       \<and> (s = BLE_STATUS_BUSY \<longleftrightarrow> tx_pending (ll_ctx ctx))
       \<and> (\<not> tx_pending (ll_ctx ctx) \<longrightarrow> s = BLE_STATUS_OK \<and> tx_pending (ll_ctx c))
       \<and> response_received c = response_received ctx \<and> pending_op c = opcode req"
  using assms by (simp add: gatt_submit_def ble_ll_send_data_def Let_def)

text \<open>
  Claim C10, as amended. \<open>gatt_send_att_request\<close> keeps no record of an outstanding
  request. For a supported opcode on a connected link, with an MTU from 3 to 247, it
  returns Busy exactly when the link layer still holds an unacknowledged PDU
  (\<open>tx_pending\<close>); otherwise it returns OK and queues the PDU. In both cases it clears
  \<open>response_received\<close> and overwrites \<open>pending_op\<close>.
\<close>

theorem att_request_busy_iff_ll_pending:
  assumes op: "opcode req = ATT_READ_BY_TYPE_REQ \<or> opcode req = ATT_READ_REQ
               \<or> opcode req = ATT_WRITE_REQ"
    and len: "length (params req) = 246"
    and mtu: "3 \<le> unat (mtu ctx)" "unat (mtu ctx) \<le> 247"
    and st: "conn_state (ll_ctx ctx) = CONN_STATE_CONNECTED"
  shows "\<exists>s c. gatt_send_att_request ctx req = Inr (s, c)
       \<and> (s = BLE_STATUS_BUSY \<longleftrightarrow> tx_pending (ll_ctx ctx))
       \<and> (\<not> tx_pending (ll_ctx ctx) \<longrightarrow> s = BLE_STATUS_OK \<and> tx_pending (ll_ctx c))
       \<and> \<not> response_received c \<and> pending_op c = opcode req"
proof -
  define c0 where "c0 = ctx\<lparr>response_received := False, response_length := 0\<rparr>"
  have c0: "conn_state (ll_ctx c0) = CONN_STATE_CONNECTED" "ll_ctx c0 = ll_ctx ctx"
    "\<not> response_received c0" "mtu c0 = mtu ctx"
    using st by (simp_all add: c0_def)
  have m0: "mtu ctx \<noteq> 0" using mtu(1) by auto
  have m1: "\<not> mtu ctx > 251" using mtu(2) by (simp add: word_less_nat_alt)
  have opc: "ATT_READ_BY_TYPE_REQ \<noteq> ATT_READ_REQ" "ATT_READ_BY_TYPE_REQ \<noteq> ATT_WRITE_REQ"
    "ATT_READ_REQ \<noteq> ATT_WRITE_REQ"
    by (simp_all add: ATT_READ_BY_TYPE_REQ_def ATT_READ_REQ_def ATT_WRITE_REQ_def)
  from op consider (rbt) "opcode req = ATT_READ_BY_TYPE_REQ" | (rd) "opcode req = ATT_READ_REQ"
    | (wr) "opcode req = ATT_WRITE_REQ" by blast
  then show ?thesis
  proof cases
    case rbt
    have e: "gatt_send_att_request ctx req = gatt_submit c0 req
             [opcode req, lo_byte (le16 (params req) 0), hi_byte (le16 (params req) 0),
              lo_byte (le16 (params req) 2), hi_byte (le16 (params req) 2),
              lo_byte (le16 (params req) 4), hi_byte (le16 (params req) 4)] 7"
      using rbt by (simp add: gatt_send_att_request_def Let_def c0_def)
    show ?thesis unfolding e
      using gatt_submit_status [of 7 _ c0 req] c0 rbt by simp
  next
    case rd
    have e: "gatt_send_att_request ctx req = gatt_submit c0 req
             [opcode req, lo_byte (le16 (params req) 0), hi_byte (le16 (params req) 0)] 3"
      using rd opc by (simp add: gatt_send_att_request_def Let_def c0_def)
    show ?thesis unfolding e
      using gatt_submit_status [of 3 _ c0 req] c0 rd by simp
  next
    case wr
    have l: "3 + (mtu ctx - 3) = mtu ctx" by simp
    have e: "gatt_send_att_request ctx req = gatt_submit c0 req
             ([opcode req, lo_byte (le16 (params req) 0), hi_byte (le16 (params req) 0)]
              @ take (unat (mtu ctx) - 3) (drop 2 (params req))) (mtu ctx)"
    proof -
      have g: "\<not> (unat (mtu ctx) < 3 \<or> unat (mtu ctx) - 3 > 244)" using mtu by arith
      show ?thesis
        using wr opc g by (simp add: gatt_send_att_request_def Let_def c0_def)
    qed
    have ln: "unat (mtu ctx) \<le> length ([opcode req, lo_byte (le16 (params req) 0),
        hi_byte (le16 (params req) 0)] @ take (unat (mtu ctx) - 3) (drop 2 (params req)))"
      using mtu len by simp
    show ?thesis unfolding e
      using gatt_submit_status [OF m0 m1 _ ln, of c0 req] c0 wr mtu by simp
  qed
qed

text \<open>
  The theorem on \<open>gatt_sent\<close>: while the first request's PDU is pending in the link
  layer, a second request is rejected with Busy.
\<close>

theorem att_request_busy_iff_ll_pending_witness:
  "opcode (read_request 5) = ATT_READ_REQ
   \<and> length (params (read_request 5)) = 246
   \<and> 3 \<le> unat (mtu gatt_sent) \<and> unat (mtu gatt_sent) \<le> 247
   \<and> conn_state (ll_ctx gatt_sent) = CONN_STATE_CONNECTED
   \<and> tx_pending (ll_ctx gatt_sent)
   \<and> status_of (gatt_send_att_request gatt_sent (read_request 5)) = Some BLE_STATUS_BUSY"
proof -
  have h: "opcode (read_request 5) = ATT_READ_REQ" "length (params (read_request 5)) = 246"
    "3 \<le> unat (mtu gatt_sent)" "unat (mtu gatt_sent) \<le> 247"
    "conn_state (ll_ctx gatt_sent) = CONN_STATE_CONNECTED" "tx_pending (ll_ctx gatt_sent)"
    by (simp_all add: read_request_def gatt_sent_def gatt_idle_def ll_sent_def ctx_connected_def
        ble_ll_init_def ATT_MTU_DEFAULT_def)
  have op: "opcode (read_request 5) = ATT_READ_BY_TYPE_REQ \<or> opcode (read_request 5) = ATT_READ_REQ
               \<or> opcode (read_request 5) = ATT_WRITE_REQ"
    using h(1) by simp
  from att_request_busy_iff_ll_pending [OF op h(2,3,4,5)] h(6)
  have "status_of (gatt_send_att_request gatt_sent (read_request 5)) = Some BLE_STATUS_BUSY"
    by (auto simp: status_of_def)
  then show ?thesis using h by simp
qed

text \<open>
  The specification's wording of this property fails: a read of handle 3 is submitted and accepted; in the next
  connection event the peer acknowledges the PDU at the link layer with an empty PDU
  and no ATT response arrives (\<open>response_received\<close> is false); a second request, a
  read of handle 5, is then accepted with status OK while the first is still
  outstanding.
\<close>

theorem att_request_busy_iff_ll_pending_counterexample:
  "gatt_send_att_request gatt_idle (read_request 3) = Inr (BLE_STATUS_OK, gatt_sent)
   \<and> ll_handle_connection_event cbs_none empty_ack_reply (ll_ctx gatt_sent) =
       Inr (ll_acked,
            [SetRfFreq 2416000000, SetBleWhiteningSeed 0x47, WaitUntilUs 0,
             SetBufferBaseAddress 0x00 0x80,
             WriteBuffer 0x00 [0x02, 0x07, 0x03, 0x00, 0x04, 0x00, 0x0A, 0x03, 0x00], SetTx,
             ClearIrqStatus 0x01, DelayUs 150, SetRxWithTimeout 2],
            None)
   \<and> response_received (gatt_sent\<lparr>ll_ctx := ll_acked\<rparr>) = False
   \<and> pending_op (gatt_sent\<lparr>ll_ctx := ll_acked\<rparr>) = ATT_READ_REQ
   \<and> status_of (gatt_send_att_request (gatt_sent\<lparr>ll_ctx := ll_acked\<rparr>) (read_request 5))
       = Some BLE_STATUS_OK"
  by code_simp

end
